theory Spec2Isabelle
  imports Complex_Main
begin

section \<open>Numbers and dates\<close>

text \<open>
  The engine computes with JavaScript numbers, which are IEEE doubles. The calculator is
  modelled at two levels. In the first, amounts, values and percentages are exact
  rationals (\<^typ>\<open>rat\<close>): this is the arithmetic the code writes down, and the
  statements about it hold up to the rounding of doubles. In the second, used for the
  corpus computation where the rounding decides a reported digit and a branch, every
  operation gives the double the language gives (\<open>toNumber\<close>, \<open>num_add\<close>,
  \<open>num_mul\<close>, \<open>num_div\<close> below).

  The one place where the code rounds on purpose is \<open>parseFloat(x.toFixed(2))\<close>:
  \<open>toFixed\<close> takes the integer \<open>n\<close> for which \<open>n / 100\<close> is closest to the magnitude of
  \<open>x\<close> (the larger one on a tie) and puts the sign back.
\<close>

definition toFixed2 :: "rat \<Rightarrow> rat" where
  "toFixed2 x =
     (if x < 0 then - (of_int (floor (- x * 100 + 1 / 2)) / 100)
      else of_int (floor (x * 100 + 1 / 2)) / 100)"

subsection \<open>Doubles\<close>

text \<open>
  A number of the language is a finite double, an infinity or \<open>NaN\<close>. A finite double
  is kept as the rational it stands for; the two zeros of the format are not told
  apart (they differ only as divisors, and the corpus computation never divides by
  zero).
\<close>

datatype jsnum = Num rat | PosInfinity | NegInfinity | NaN

text \<open>
  \<open>roundToDouble\<close> is rounding to the nearest double, ties to the even significand:
  for \<open>2 ^ e \<le> \<bar>x\<bar> < 2 ^ (e + 1)\<close> the doubles around \<open>x\<close> are the multiples of
  \<open>2 ^ (e - 52)\<close>, and below \<open>2 ^ (- 1022)\<close> the multiples of \<open>2 ^ (- 1074)\<close>.
  \<open>bitLength n\<close> is the number of binary digits of \<open>n\<close>, and \<open>exponentOf x\<close> the
  \<open>e\<close> above, for positive \<open>x\<close>. A result whose exponent exceeds 1023 is an infinity
  (\<open>toNumber\<close>).
\<close>

function bitLength :: "int \<Rightarrow> int" where
  "bitLength n = (if n \<le> 0 then 0 else 1 + bitLength (n div 2))"
  by pat_completeness auto

termination bitLength
  by (relation "measure nat") auto

declare bitLength.simps [simp del]

definition pow2 :: "int \<Rightarrow> rat" where
  "pow2 e = (if 0 \<le> e then 2 ^ nat e else 1 / 2 ^ nat (- e))"

definition exponentOf :: "rat \<Rightarrow> int" where
  "exponentOf x =
     (if 1 \<le> x then bitLength \<lfloor>x\<rfloor> - 1
      else - bitLength (\<lceil>1 / x\<rceil> - 1))"

definition roundHalfEven :: "rat \<Rightarrow> int" where
  "roundHalfEven y =
     (let f = \<lfloor>y\<rfloor>; r = y - of_int f
      in if r < 1 / 2 then f else if 1 / 2 < r then f + 1
         else if even f then f else f + 1)"

definition roundToDouble :: "rat \<Rightarrow> rat" where
  "roundToDouble x =
     (if x = 0 then 0
      else let e = max (exponentOf \<bar>x\<bar>) (- 1022);
               q = pow2 (e - 52)
           in sgn x * of_int (roundHalfEven (\<bar>x\<bar> / q)) * q)"

definition infinity :: "bool \<Rightarrow> jsnum" where
  "infinity negative = (if negative then NegInfinity else PosInfinity)"

definition toNumber :: "rat \<Rightarrow> jsnum" where
  "toNumber x =
     (let r = roundToDouble x
      in if r \<noteq> 0 \<and> 1024 \<le> exponentOf \<bar>r\<bar> then infinity (r < 0) else Num r)"

text \<open>
  The operators of the language on numbers: the exact result, rounded. Sums and
  products with an infinity or \<open>NaN\<close> follow the standard.
\<close>

fun num_neg :: "jsnum \<Rightarrow> jsnum" where
  "num_neg (Num a) = Num (- a)"
| "num_neg PosInfinity = NegInfinity"
| "num_neg NegInfinity = PosInfinity"
| "num_neg NaN = NaN"

definition isNegative :: "jsnum \<Rightarrow> bool" where
  "isNegative x = (case x of Num a \<Rightarrow> a < 0 | NegInfinity \<Rightarrow> True | _ \<Rightarrow> False)"

fun num_add :: "jsnum \<Rightarrow> jsnum \<Rightarrow> jsnum" where
  "num_add (Num a) (Num b) = toNumber (a + b)"
| "num_add (Num a) y = y"
| "num_add x (Num b) = x"
| "num_add x y = (if x = y then x else NaN)"

fun num_mul :: "jsnum \<Rightarrow> jsnum \<Rightarrow> jsnum" where
  "num_mul (Num a) (Num b) = toNumber (a * b)"
| "num_mul x y =
     (if x = NaN \<or> y = NaN \<or> x = Num 0 \<or> y = Num 0 then NaN
      else infinity (isNegative x \<noteq> isNegative y))"

fun num_div :: "jsnum \<Rightarrow> jsnum \<Rightarrow> jsnum" where
  "num_div (Num a) (Num b) =
     (if b = 0 then (if a = 0 then NaN else infinity (a < 0)) else toNumber (a / b))"
| "num_div (Num a) y = (if y = NaN then NaN else Num 0)"
| "num_div x (Num b) = (if x = NaN then NaN else infinity (isNegative x \<noteq> (b < 0)))"
| "num_div x y = NaN"

text \<open>
  \<open>parseFloat(x.toFixed(2))\<close> on a number: \<open>toFixed\<close> rounds the exact value of the
  double to two decimals and \<open>parseFloat\<close> reads the decimal back as the nearest double.
  From \<open>10 ^ 21\<close> on, and for an infinity or \<open>NaN\<close>, \<open>toFixed\<close> prints the number as
  it is.
\<close>

fun num_toFixed2 :: "jsnum \<Rightarrow> jsnum" where
  "num_toFixed2 (Num x) = (if 10 ^ 21 \<le> \<bar>x\<bar> then Num x else toNumber (toFixed2 x))"
| "num_toFixed2 x = x"

subsection \<open>Dates\<close>

text \<open>
  A \<open>Date\<close> is modelled by its calendar position: the index of its month
  (\<open>12 * year + month\<close>, month \<open>0\<close> being January) and the milliseconds elapsed since
  the start of that month. All dates live in one time zone without daylight-saving
  shifts. The time value \<open>getTime\<close> follows the day numbering of the language
  standard (day \<open>0\<close> is 1 January 1970); comparisons of dates compare time values, as
  the relational operators of the language and the query operators of the store do.
\<close>

record jsdate =
  monthIndex :: int
  msInMonth :: int

definition msPerDay :: int where
  "msPerDay = 86400000"

definition isLeapYear :: "int \<Rightarrow> bool" where
  "isLeapYear y = (y mod 4 = 0 \<and> (y mod 100 \<noteq> 0 \<or> y mod 400 = 0))"

definition dayFromYear :: "int \<Rightarrow> int" where
  "dayFromYear y =
     365 * (y - 1970) + (y - 1969) div 4 - (y - 1901) div 100 + (y - 1601) div 400"

definition daysBeforeMonth :: "int \<Rightarrow> int \<Rightarrow> int" where
  "daysBeforeMonth y m =
     (if m = 0 then 0 else if m = 1 then 31
      else (if isLeapYear y then 1 else 0) +
        (if m = 2 then 59 else if m = 3 then 90 else if m = 4 then 120
         else if m = 5 then 151 else if m = 6 then 181 else if m = 7 then 212
         else if m = 8 then 243 else if m = 9 then 273 else if m = 10 then 304
         else 334))"

definition daysInMonth :: "int \<Rightarrow> int" where
  "daysInMonth mi =
     (let y = mi div 12; m = mi mod 12 in
      if m = 1 then (if isLeapYear y then 29 else 28)
      else if m = 3 \<or> m = 5 \<or> m = 8 \<or> m = 10 then 30 else 31)"

definition monthStartDay :: "int \<Rightarrow> int" where
  "monthStartDay mi = dayFromYear (mi div 12) + daysBeforeMonth (mi div 12) (mi mod 12)"

definition getTime :: "jsdate \<Rightarrow> int" where
  "getTime d = monthStartDay (monthIndex d) * msPerDay + msInMonth d"

definition getFullYear :: "jsdate \<Rightarrow> int" where
  "getFullYear d = monthIndex d div 12"

definition getMonth :: "jsdate \<Rightarrow> int" where
  "getMonth d = monthIndex d mod 12"

definition getDate :: "jsdate \<Rightarrow> int" where
  "getDate d = msInMonth d div msPerDay + 1"

definition validDate :: "jsdate \<Rightarrow> bool" where
  "validDate d = (0 \<le> msInMonth d \<and> msInMonth d < daysInMonth (monthIndex d) * msPerDay)"

text \<open>
  Building a date from calendar fields lets the day (and the month) run over: day \<open>0\<close>
  is the last day of the month before, day \<open>32\<close> of January is 1 February.
  \<open>normDate\<close> carries the overflow into the month index.
\<close>

function normDate :: "int \<Rightarrow> int \<Rightarrow> jsdate" where
  "normDate mi off =
     (if off < 0 then normDate (mi - 1) (off + daysInMonth (mi - 1) * msPerDay)
      else if daysInMonth mi * msPerDay \<le> off
        then normDate (mi + 1) (off - daysInMonth mi * msPerDay)
      else \<lparr>monthIndex = mi, msInMonth = off\<rparr>)"
  by pat_completeness auto

termination normDate
proof (relation "measure (\<lambda>(mi, off). if off < 0 then nat (31 * msPerDay - off) else nat off)")
  show "wf (measure (\<lambda>(mi, off). if off < 0 then nat (31 * msPerDay - off) else nat off))"
    by simp
next
  fix mi off :: int
  assume neg: "off < 0"
  have "28 \<le> daysInMonth (mi - 1)" "daysInMonth (mi - 1) \<le> 31"
    by (simp_all add: daysInMonth_def Let_def)
  then have "0 < daysInMonth (mi - 1) * msPerDay"
    "daysInMonth (mi - 1) * msPerDay \<le> 31 * msPerDay"
    by (simp_all add: msPerDay_def)
  with neg show "((mi - 1, off + daysInMonth (mi - 1) * msPerDay), (mi, off))
      \<in> measure (\<lambda>(mi, off). if off < 0 then nat (31 * msPerDay - off) else nat off)"
    by (simp add: msPerDay_def)
next
  fix mi off :: int
  assume "\<not> off < 0" and over: "daysInMonth mi * msPerDay \<le> off"
  have "28 \<le> daysInMonth mi"
    by (simp add: daysInMonth_def Let_def)
  then have "0 < daysInMonth mi * msPerDay" by (simp add: msPerDay_def)
  with over show "((mi + 1, off - daysInMonth mi * msPerDay), (mi, off))
      \<in> measure (\<lambda>(mi, off). if off < 0 then nat (31 * msPerDay - off) else nat off)"
    by simp
qed

declare normDate.simps [simp del]

text \<open>
  \<open>new Date(y, m, d)\<close>: a year from 0 to 99 stands for 1900 + year in this constructor.
  \<open>setMonth\<close> keeps the day of the month and the time of day; \<open>addDays\<close> is
  \<open>setDate(getDate() + n)\<close>, and also \<open>new Date(getTime() + n * msPerDay)\<close>.
\<close>

definition makeFullYear :: "int \<Rightarrow> int" where
  "makeFullYear y = (if 0 \<le> y \<and> y \<le> 99 then 1900 + y else y)"

definition newDate :: "int \<Rightarrow> int \<Rightarrow> int \<Rightarrow> jsdate" where
  "newDate y m d = normDate (12 * makeFullYear y + m) ((d - 1) * msPerDay)"

definition setMonth :: "jsdate \<Rightarrow> int \<Rightarrow> jsdate" where
  "setMonth d m = normDate (12 * getFullYear d + m) (msInMonth d)"

definition addDays :: "jsdate \<Rightarrow> int \<Rightarrow> jsdate" where
  "addDays d n = normDate (monthIndex d) (msInMonth d + n * msPerDay)"

definition date_le :: "jsdate \<Rightarrow> jsdate \<Rightarrow> bool" where
  "date_le a b = (getTime a \<le> getTime b)"

definition date_less :: "jsdate \<Rightarrow> jsdate \<Rightarrow> bool" where
  "date_less a b = (getTime a < getTime b)"

text \<open>\<open>toDateString\<close> prints the calendar day; two dates print alike when they fall on
  the same day.\<close>

definition sameDateString :: "jsdate \<Rightarrow> jsdate \<Rightarrow> bool" where
  "sameDateString a b =
     (getFullYear a = getFullYear b \<and> getMonth a = getMonth b \<and> getDate a = getDate b)"

subsection \<open>Calendar facts\<close>

text \<open>
  The day number of the first of a month grows by the length of the month, so time
  values are monotone in the calendar position, and normalising a date keeps its time
  value.
\<close>

lemma succ_div_mod:
  fixes x k :: int
  assumes "0 < k"
  shows "(x + 1) div k = x div k + (if (x + 1) mod k = 0 then 1 else 0)"
    and "(x + 1) mod k = (if x mod k = k - 1 then 0 else x mod k + 1)"
proof -
  define q where "q = x div k"
  define r where "r = x mod k"
  have x: "x = k * q + r" and r: "0 \<le> r" "r < k"
    using assms by (simp_all add: q_def r_def)
  have both: "(x + 1) div k = q + (if (x + 1) mod k = 0 then 1 else 0)
     \<and> (x + 1) mod k = (if r = k - 1 then 0 else r + 1)"
  proof (cases "r + 1 = k")
    case True
    then have e: "x + 1 = k * (q + 1) + 0" using x by (simp add: algebra_simps)
    have "(x + 1) div k = q + 1" using int_div_pos_eq[OF e] assms by simp
    moreover have "(x + 1) mod k = 0" using int_mod_pos_eq[OF e] assms by simp
    moreover have "r = k - 1" using True by simp
    ultimately show ?thesis by simp
  next
    case False
    then have lt: "r + 1 < k" using r by simp
    have e: "x + 1 = k * q + (r + 1)" using x by simp
    have "(x + 1) div k = q" using int_div_pos_eq[OF e] r lt by simp
    moreover have "(x + 1) mod k = r + 1" using int_mod_pos_eq[OF e] r lt by simp
    moreover have "r \<noteq> k - 1" "r + 1 \<noteq> 0" using False r by simp_all
    ultimately show ?thesis by simp
  qed
  show "(x + 1) div k = x div k + (if (x + 1) mod k = 0 then 1 else 0)"
    using both by (simp add: q_def)
  show "(x + 1) mod k = (if x mod k = k - 1 then 0 else x mod k + 1)"
    using both by (simp add: r_def)
qed

lemma dayFromYear_step: "dayFromYear (y + 1) = dayFromYear y + (if isLeapYear y then 366 else 365)"
proof -
  define q4 where "q4 = (y - 1969) div 4"
  define q100 where "q100 = (y - 1901) div 100"
  define q400 where "q400 = (y - 1601) div 400"
  define l4 :: int where "l4 = (if y mod 4 = 0 then 1 else 0)"
  define l100 :: int where "l100 = (if y mod 100 = 0 then 1 else 0)"
  define l400 :: int where "l400 = (if y mod 400 = 0 then 1 else 0)"
  have m4: "(y - 1968) mod 4 = 0 \<longleftrightarrow> y mod 4 = 0" by presburger
  have m100: "(y - 1900) mod 100 = 0 \<longleftrightarrow> y mod 100 = 0" by presburger
  have m400: "(y - 1600) mod 400 = 0 \<longleftrightarrow> y mod 400 = 0" by presburger
  have "(y - 1969 + 1) div 4 = (y - 1969) div 4 + (if (y - 1969 + 1) mod 4 = 0 then 1 else 0)"
    by (rule succ_div_mod(1)) simp
  then have a: "(y - 1968) div 4 = q4 + l4"
    using m4 by (simp add: q4_def l4_def)
  have "(y - 1901 + 1) div 100 = (y - 1901) div 100 + (if (y - 1901 + 1) mod 100 = 0 then 1 else 0)"
    by (rule succ_div_mod(1)) simp
  then have b: "(y - 1900) div 100 = q100 + l100"
    using m100 by (simp add: q100_def l100_def)
  have "(y - 1601 + 1) div 400 = (y - 1601) div 400 + (if (y - 1601 + 1) mod 400 = 0 then 1 else 0)"
    by (rule succ_div_mod(1)) simp
  then have c: "(y - 1600) div 400 = q400 + l400"
    using m400 by (simp add: q400_def l400_def)
  have d: "y mod 400 = 0 \<Longrightarrow> y mod 100 = 0" "y mod 100 = 0 \<Longrightarrow> y mod 4 = 0"
    by presburger+
  have e: "dayFromYear (y + 1) = 365 * (y - 1969) + (q4 + l4) - (q100 + l100) + (q400 + l400)"
    by (simp add: dayFromYear_def a b c)
  have g: "dayFromYear y = 365 * (y - 1970) + q4 - q100 + q400"
    by (simp add: dayFromYear_def q4_def q100_def q400_def)
  have f: "l4 - l100 + l400 = (if isLeapYear y then 1 else 0)"
    unfolding isLeapYear_def l4_def l100_def l400_def
    apply (cases "y mod 4 = 0"; cases "y mod 100 = 0"; cases "y mod 400 = 0")
    using d apply simp_all
    done
  have "dayFromYear (y + 1) = dayFromYear y + 365 + (l4 - l100 + l400)"
    unfolding e g by (simp add: algebra_simps)
  then show ?thesis unfolding f by simp
qed

lemma monthStartDay_step: "monthStartDay (mi + 1) = monthStartDay mi + daysInMonth mi"
proof (cases "mi mod 12 = 11")
  case True
  then have m: "(mi + 1) mod 12 = 0" using succ_div_mod(2)[of 12 mi] by simp
  then have "(mi + 1) div 12 = mi div 12 + 1" using succ_div_mod(1)[of 12 mi] by simp
  with True m show ?thesis
    by (simp add: monthStartDay_def daysInMonth_def daysBeforeMonth_def dayFromYear_step Let_def)
next
  case False
  then have m: "(mi + 1) mod 12 = mi mod 12 + 1" using succ_div_mod(2)[of 12 mi] by simp
  have rng: "0 \<le> mi mod 12" "mi mod 12 < 11" using False by simp_all
  then have "(mi + 1) mod 12 \<noteq> 0" using m by simp
  then have dv: "(mi + 1) div 12 = mi div 12" using succ_div_mod(1)[of 12 mi] by simp
  define m0 where "m0 = mi mod 12"
  from rng have "m0 = 0 \<or> m0 = 1 \<or> m0 = 2 \<or> m0 = 3 \<or> m0 = 4 \<or> m0 = 5 \<or> m0 = 6 \<or> m0 = 7
      \<or> m0 = 8 \<or> m0 = 9 \<or> m0 = 10" unfolding m0_def[symmetric] by presburger
  then show ?thesis
    unfolding monthStartDay_def daysInMonth_def daysBeforeMonth_def dv m Let_def m0_def[symmetric]
    by auto
qed

lemma daysInMonth_bounds: "28 \<le> daysInMonth mi" "daysInMonth mi \<le> 31"
  by (simp_all add: daysInMonth_def Let_def)

lemma daysInMonth_ms_pos: "0 < daysInMonth mi * msPerDay"
  using daysInMonth_bounds(1)[of mi] by (simp add: msPerDay_def)

lemma getTime_normDate: "getTime (normDate mi off) = monthStartDay mi * msPerDay + off"
proof (induction mi off rule: normDate.induct)
  case (1 mi off)
  show ?case
  proof (cases "off < 0")
    case True
    have "monthStartDay mi = monthStartDay (mi - 1) + daysInMonth (mi - 1)"
      using monthStartDay_step[of "mi - 1"] by simp
    with True 1(1) show ?thesis
      by (subst normDate.simps) (simp add: algebra_simps)
  next
    case False
    show ?thesis
    proof (cases "daysInMonth mi * msPerDay \<le> off")
      case True
      have "getTime (normDate (mi + 1) (off - daysInMonth mi * msPerDay))
          = (monthStartDay mi + daysInMonth mi) * msPerDay + (off - daysInMonth mi * msPerDay)"
        using False True 1(2) by (simp add: monthStartDay_step)
      then have "getTime (normDate (mi + 1) (off - daysInMonth mi * msPerDay))
          = monthStartDay mi * msPerDay + off"
        by (simp add: algebra_simps)
      with False True show ?thesis
        by (subst normDate.simps) simp
    next
      case over: False
      with False show ?thesis
        by (subst normDate.simps) (simp add: getTime_def)
    qed
  qed
qed

lemma validDate_normDate: "validDate (normDate mi off)"
proof (induction mi off rule: normDate.induct)
  case (1 mi off)
  then show ?case
    by (subst normDate.simps) (simp add: validDate_def)
qed

lemma normDate_in_range:
  "0 \<le> off \<Longrightarrow> off < daysInMonth mi * msPerDay \<Longrightarrow> normDate mi off = \<lparr>monthIndex = mi, msInMonth = off\<rparr>"
  by (subst normDate.simps) simp

lemma normDate_zero: "normDate mi 0 = \<lparr>monthIndex = mi, msInMonth = 0\<rparr>"
  using daysInMonth_ms_pos[of mi] by (simp add: normDate_in_range)

lemma monthStartDay_mono: "a \<le> b \<Longrightarrow> monthStartDay a \<le> monthStartDay b"
proof (induction "nat (b - a)" arbitrary: b)
  case 0
  then show ?case by simp
next
  case (Suc n)
  then have "n = nat ((b - 1) - a)" "a \<le> b - 1" by linarith+
  then have "monthStartDay a \<le> monthStartDay (b - 1)" using Suc(1) by blast
  moreover have "monthStartDay b = monthStartDay (b - 1) + daysInMonth (b - 1)"
    using monthStartDay_step[of "b - 1"] by simp
  ultimately show ?case using daysInMonth_bounds(1)[of "b - 1"] by linarith
qed

lemma monthStartDay_less: "a < b \<Longrightarrow> monthStartDay a < monthStartDay b"
proof -
  assume "a < b"
  then have "monthStartDay (a + 1) \<le> monthStartDay b" by (simp add: monthStartDay_mono)
  then show ?thesis using monthStartDay_step[of a] daysInMonth_bounds(1)[of a] by linarith
qed

lemma month_start_le:
  assumes "validDate n"
  shows "getTime \<lparr>monthIndex = c, msInMonth = 0\<rparr> \<le> getTime n \<longleftrightarrow> c \<le> monthIndex n"
proof
  assume le: "getTime \<lparr>monthIndex = c, msInMonth = 0\<rparr> \<le> getTime n"
  show "c \<le> monthIndex n"
  proof (rule ccontr)
    assume "\<not> c \<le> monthIndex n"
    then have "monthStartDay (monthIndex n + 1) \<le> monthStartDay c"
      by (simp add: monthStartDay_mono)
    then have "(monthStartDay (monthIndex n) + daysInMonth (monthIndex n)) * msPerDay \<le> monthStartDay c * msPerDay"
      by (simp add: monthStartDay_step msPerDay_def)
    with le assms show False by (simp add: getTime_def validDate_def algebra_simps)
  qed
next
  assume "c \<le> monthIndex n"
  then have "monthStartDay c * msPerDay \<le> monthStartDay (monthIndex n) * msPerDay"
    by (simp add: monthStartDay_mono msPerDay_def)
  with assms show "getTime \<lparr>monthIndex = c, msInMonth = 0\<rparr> \<le> getTime n"
    by (simp add: getTime_def validDate_def)
qed


section \<open>The stores\<close>

text \<open>
  The collections the engine reads and writes. An \<open>ObjectId\<close> is a natural number.
  Of a user only the identifier and the name are read; of an investment the edit
  history is never read by the engine and is left out. A collection is the list of its
  documents in the order the store returns them; the \<open>MonthlyReturn\<close> collection
  has a unique index on \<open>month\<close> and is kept as a map from the time value of the
  month to its one document.

  A monthly document holds what its schema keeps. The entries of \<open>platformReturns\<close>
  have the paths \<open>platformId\<close>, \<open>returnPercentage\<close> and \<open>returnAmount\<close>; anything
  else handed to the store is dropped. Every entry of \<open>clientReturns\<close> and of
  \<open>platformReturns\<close> is a subdocument with an \<open>_id\<close> of its own, generated when the
  entry is written; these identifiers are kept beside the entries, in the same order
  (\<open>clientReturnIds\<close>, \<open>platformReturnIds\<close>). \<open>createdAt\<close> and \<open>updatedAt\<close> are the
  timestamps the schema maintains. The \<open>_id\<close> and the version key of the document
  itself are set when it is inserted and never written again; they are left out.
  \<open>nextObjectId\<close> is the supply of identifiers: one that has been handed out is
  never handed out again.
\<close>

datatype error = TypeError | ValidationError | DuplicateKeyError

datatype investmentType = deposit | withdrawal

datatype investmentStatus = active | cancelled

datatype platformStatus = platform_active | closed

record user =
  user_id :: nat
  user_name :: string

record investment =
  inv_clientId :: nat
  inv_amount :: rat
  inv_investmentDate :: jsdate
  inv_type :: investmentType
  inv_status :: investmentStatus

record platformInvestment =
  pl_id :: nat
  pl_platformName :: string
  pl_amount :: rat
  pl_investmentDate :: jsdate
  pl_returnPercentage :: "rat option"
  pl_currentValue :: rat
  pl_status :: platformStatus

record clientReturn =
  cr_clientId :: nat
  investmentShare :: rat
  cr_sharePercentage :: rat
  returnAmount :: rat
  closingBalance :: rat

record platformData =
  pd_platformId :: nat
  pd_platformName :: string
  pd_returnPercentage :: "rat option"
  pd_currentValue :: rat

record platformReturn =
  pr_platformId :: nat
  pr_returnPercentage :: "rat option"
  pr_returnAmount :: "rat option"

record monthlyReturn =
  month :: jsdate
  mr_totalCorpus :: rat
  totalPlatformValue :: rat
  monthlyReturnPercentage :: rat
  clientReturns :: "clientReturn list"
  mr_platformReturns :: "platformReturn list"
  calculatedAt :: jsdate
  clientReturnIds :: "nat list"
  platformReturnIds :: "nat list"
  createdAt :: jsdate
  updatedAt :: jsdate

text \<open>
  The weekly return of a stored week is a quotient whose divisor may be zero, so it is
  a number of the language: finite, infinite or not a number.
\<close>

record weeklyPlatformData =
  wk_platformId :: nat
  weekStartDate :: jsdate
  weekEndDate :: jsdate
  weekNumber :: int
  year :: int
  openingValue :: rat
  closingValue :: rat
  weeklyReturn :: jsnum
  profitAmount :: rat
  wk_notes :: "string option"
  enteredBy :: "nat option"
  isInterpolated :: bool

record db =
  users :: "user list"
  investments :: "investment list"
  platformInvestments :: "platformInvestment list"
  monthlyReturns :: "int \<rightharpoonup> monthlyReturn"
  weeklyData :: "weeklyPlatformData list"
  nextObjectId :: nat

section \<open>InvestmentCalculator\<close>

subsection \<open>getCorpusAtDate\<close>

text \<open>
  \<open>populate('clientId')\<close> replaces the reference by the user document, or by \<open>null\<close>
  when no user has that identifier. The \<open>forEach\<close> over the populated investments
  reads \<open>invest.clientId._id\<close> first, which throws a \<open>TypeError\<close> on \<open>null\<close>.
  \<open>clientInvestments\<close> is the object keyed by client identifier; its values are
  listed in the order the keys were added.
\<close>

record clientInvestment =
  clientId :: nat
  clientName :: string
  totalInvestment :: rat

record clientShare = clientInvestment +
  sharePercentage :: rat

record corpusData =
  totalCorpus :: rat
  clientShares :: "clientShare list"

definition populate :: "db \<Rightarrow> investment \<Rightarrow> investment \<times> user option" where
  "populate d invest = (invest, find (\<lambda>u. user_id u = inv_clientId invest) (users d))"

definition signedAmount :: "investment \<Rightarrow> rat" where
  "signedAmount invest =
     (if inv_type invest = withdrawal then - inv_amount invest else inv_amount invest)"

fun addToClient :: "nat \<Rightarrow> rat \<Rightarrow> clientInvestment list \<Rightarrow> clientInvestment list" where
  "addToClient cid amount [] = []"
| "addToClient cid amount (c # cs) =
     (if clientId c = cid then c\<lparr>totalInvestment := totalInvestment c + amount\<rparr> # cs
      else c # addToClient cid amount cs)"

fun groupByClient ::
  "(investment \<times> user option) list \<Rightarrow> clientInvestment list \<Rightarrow> rat
    \<Rightarrow> error + (clientInvestment list \<times> rat)" where
  "groupByClient [] clientInvestments corpus = Inr (clientInvestments, corpus)"
| "groupByClient ((invest, None) # rest) clientInvestments corpus = Inl TypeError"
| "groupByClient ((invest, Some u) # rest) clientInvestments corpus =
     (let cid = user_id u;
          entries =
            (if list_ex (\<lambda>c. clientId c = cid) clientInvestments then clientInvestments
             else clientInvestments @
               [\<lparr>clientId = cid, clientName = user_name u, totalInvestment = 0\<rparr>]);
          amount = signedAmount invest
      in groupByClient rest (addToClient cid amount entries) (corpus + amount))"

definition selectedInvestments :: "db \<Rightarrow> jsdate \<Rightarrow> investment list" where
  "selectedInvestments d date =
     filter (\<lambda>invest. date_le (inv_investmentDate invest) date \<and> inv_status invest = active)
       (investments d)"

text \<open>The second \<open>forEach\<close> gives every client its share of the corpus, in percent.\<close>

definition withSharePercentage :: "rat \<Rightarrow> clientInvestment \<Rightarrow> clientShare" where
  "withSharePercentage corpus client =
     \<lparr>clientId = clientId client, clientName = clientName client,
      totalInvestment = totalInvestment client,
      sharePercentage =
        (if corpus = 0 then 0 else toFixed2 (totalInvestment client / corpus * 100))\<rparr>"

definition getCorpusAtDate :: "db \<Rightarrow> jsdate \<Rightarrow> error + corpusData" where
  "getCorpusAtDate d date =
     (case groupByClient (map (populate d) (selectedInvestments d date)) [] 0 of
        Inl e \<Rightarrow> Inl e
      | Inr (clientInvestments, corpus) \<Rightarrow>
          Inr \<lparr>totalCorpus = (if corpus = 0 then 0 else corpus),
               clientShares = map (withSharePercentage corpus) clientInvestments\<rparr>)"

subsection \<open>getCorpusAtDate on doubles\<close>

text \<open>
  The same function with the numbers of the language: the stored amount is the double
  nearest to the amount entered, \<open>+=\<close> is \<open>num_add\<close>, the share is
  \<open>totalInvestment / totalCorpus * 100\<close> in that order, and \<open>totalCorpus || 0\<close>
  replaces \<open>NaN\<close> (and zero) by zero.
\<close>

record clientInvestment_double =
  d_clientId :: nat
  d_clientName :: string
  d_totalInvestment :: jsnum

record clientShare_double = clientInvestment_double +
  d_sharePercentage :: jsnum

record corpusData_double =
  d_totalCorpus :: jsnum
  d_clientShares :: "clientShare_double list"

definition signedAmount_double :: "investment \<Rightarrow> jsnum" where
  "signedAmount_double invest =
     (if inv_type invest = withdrawal then num_neg (toNumber (inv_amount invest))
      else toNumber (inv_amount invest))"

fun addToClient_double ::
  "nat \<Rightarrow> jsnum \<Rightarrow> clientInvestment_double list \<Rightarrow> clientInvestment_double list" where
  "addToClient_double cid amount [] = []"
| "addToClient_double cid amount (c # cs) =
     (if d_clientId c = cid
      then c\<lparr>d_totalInvestment := num_add (d_totalInvestment c) amount\<rparr> # cs
      else c # addToClient_double cid amount cs)"

fun groupByClient_double ::
  "(investment \<times> user option) list \<Rightarrow> clientInvestment_double list \<Rightarrow> jsnum
    \<Rightarrow> error + (clientInvestment_double list \<times> jsnum)" where
  "groupByClient_double [] clientInvestments corpus = Inr (clientInvestments, corpus)"
| "groupByClient_double ((invest, None) # rest) clientInvestments corpus = Inl TypeError"
| "groupByClient_double ((invest, Some u) # rest) clientInvestments corpus =
     (let cid = user_id u;
          entries =
            (if list_ex (\<lambda>c. d_clientId c = cid) clientInvestments then clientInvestments
             else clientInvestments @
               [\<lparr>d_clientId = cid, d_clientName = user_name u, d_totalInvestment = Num 0\<rparr>]);
          amount = signedAmount_double invest
      in groupByClient_double rest (addToClient_double cid amount entries)
           (num_add corpus amount))"

definition withSharePercentage_double ::
  "jsnum \<Rightarrow> clientInvestment_double \<Rightarrow> clientShare_double" where
  "withSharePercentage_double corpus client =
     \<lparr>d_clientId = d_clientId client, d_clientName = d_clientName client,
      d_totalInvestment = d_totalInvestment client,
      d_sharePercentage =
        (if corpus = Num 0 then Num 0
         else num_toFixed2 (num_mul (num_div (d_totalInvestment client) corpus) (Num 100)))\<rparr>"

definition getCorpusAtDate_double :: "db \<Rightarrow> jsdate \<Rightarrow> error + corpusData_double" where
  "getCorpusAtDate_double d date =
     (case groupByClient_double (map (populate d) (selectedInvestments d date)) [] (Num 0) of
        Inl e \<Rightarrow> Inl e
      | Inr (clientInvestments, corpus) \<Rightarrow>
          Inr \<lparr>d_totalCorpus = (if corpus = NaN \<or> corpus = Num 0 then Num 0 else corpus),
               d_clientShares = map (withSharePercentage_double corpus) clientInvestments\<rparr>)"

subsection \<open>getPlatformReturns and calculateWeightedReturn\<close>

record platformReturns =
  totalValue :: rat
  platforms :: "platformData list"

definition getPlatformReturns :: "db \<Rightarrow> jsdate \<Rightarrow> jsdate \<Rightarrow> platformReturns" where
  "getPlatformReturns d startDate endDate =
     (let selected =
            filter (\<lambda>p. date_le (pl_investmentDate p) endDate \<and> pl_status p = platform_active)
              (platformInvestments d)
      in \<lparr>totalValue = fold (\<lambda>platform tv. tv + pl_currentValue platform) selected 0,
          platforms =
            map (\<lambda>platform.
              \<lparr>pd_platformId = pl_id platform, pd_platformName = pl_platformName platform,
               pd_returnPercentage = pl_returnPercentage platform,
               pd_currentValue = pl_currentValue platform\<rparr>) selected\<rparr>)"

text \<open>\<open>platform.returnPercentage || 0\<close>: a missing percentage counts as zero.\<close>

definition calculateWeightedReturn :: "platformReturns \<Rightarrow> rat" where
  "calculateWeightedReturn pr =
     (if totalValue pr = 0 then 0
      else fold (\<lambda>platform weightedReturn.
             weightedReturn +
               (case pd_returnPercentage platform of None \<Rightarrow> 0 | Some r \<Rightarrow> r) *
               (pd_currentValue platform / totalValue pr))
           (platforms pr) 0)"

subsection \<open>calculateClientReturns and getPreviousClosingBalance\<close>

text \<open>
  The lookup of the previous month's closing balance is a query on the
  \<open>MonthlyReturn\<close> collection: the document of the month before \<open>date\<close> that has
  an entry for the client, then the first such entry. \<open>calculateClientReturns\<close>
  awaits it for every client share and binds the answer to \<open>previousBalance\<close>.
\<close>

definition getPreviousClosingBalance :: "db \<Rightarrow> nat \<Rightarrow> jsdate \<Rightarrow> rat" where
  "getPreviousClosingBalance d cid date =
     (let previousMonth = newDate (getFullYear date) (getMonth date - 1) 1 in
      case monthlyReturns d (getTime previousMonth) of
        None \<Rightarrow> 0
      | Some previousReturn \<Rightarrow>
          if list_ex (\<lambda>cr. cr_clientId cr = cid) (clientReturns previousReturn)
          then (case find (\<lambda>cr. cr_clientId cr = cid) (clientReturns previousReturn) of
                  Some cr \<Rightarrow> closingBalance cr
                | None \<Rightarrow> 0)
          else 0)"

definition calculateClientReturns ::
  "db \<Rightarrow> corpusData \<Rightarrow> rat \<Rightarrow> jsdate \<Rightarrow> clientReturn list" where
  "calculateClientReturns d corpus returnPercentage date =
     map (\<lambda>share.
       let previousBalance = getPreviousClosingBalance d (clientId share) date;
           currentInvestment = totalInvestment share;
           amount = currentInvestment * (returnPercentage / 100);
           closing = currentInvestment + amount
       in \<lparr>cr_clientId = clientId share, investmentShare = currentInvestment,
           cr_sharePercentage = sharePercentage share, returnAmount = amount,
           closingBalance = closing\<rparr>)
       (clientShares corpus)"

subsection \<open>calculateMonthlyReturns\<close>

text \<open>
  \<open>clock\<close> is what \<open>new Date()\<close> answers when the document is written. The only
  step that can throw is the corpus computation, before anything is written.
  \<open>findOneAndUpdate\<close> with \<open>upsert\<close> sets the fields of the update on the document
  of the month, or inserts the document. The update is cast to the schema first: a
  platform entry keeps its \<open>platformId\<close> and \<open>returnPercentage\<close> (the calculator
  supplies no \<open>returnAmount\<close>), and every entry of the two arrays gets a new \<open>_id\<close>.
  The schema option \<open>timestamps\<close> adds \<open>updatedAt\<close> to every update and \<open>createdAt\<close>
  to an insert; both are read from the clock within the same call as
  \<open>calculatedAt\<close>, and the model gives them the same reading.
\<close>

definition castPlatformReturn :: "platformData \<Rightarrow> platformReturn" where
  "castPlatformReturn p =
     \<lparr>pr_platformId = pd_platformId p, pr_returnPercentage = pd_returnPercentage p,
      pr_returnAmount = None\<rparr>"

definition startOfMonth :: "jsdate \<Rightarrow> jsdate" where
  "startOfMonth monthDate = newDate (getFullYear monthDate) (getMonth monthDate) 1"

definition endOfMonth :: "jsdate \<Rightarrow> jsdate" where
  "endOfMonth monthDate = newDate (getFullYear monthDate) (getMonth monthDate + 1) 0"

definition calculateMonthlyReturns :: "db \<Rightarrow> jsdate \<Rightarrow> jsdate \<Rightarrow> error + db" where
  "calculateMonthlyReturns d clock monthDate =
     (case getCorpusAtDate d (endOfMonth monthDate) of
        Inl e \<Rightarrow> Inl e
      | Inr corpus \<Rightarrow>
          let returns = getPlatformReturns d (startOfMonth monthDate) (endOfMonth monthDate);
              totalReturnPercentage = calculateWeightedReturn returns;
              clients = calculateClientReturns d corpus totalReturnPercentage (endOfMonth monthDate);
              firstId = nextObjectId d
          in Inr (d\<lparr>monthlyReturns := (monthlyReturns d)
                (getTime (startOfMonth monthDate) \<mapsto>
                  \<lparr>month = startOfMonth monthDate,
                   mr_totalCorpus = totalCorpus corpus,
                   totalPlatformValue = totalValue returns,
                   monthlyReturnPercentage = totalReturnPercentage,
                   clientReturns = clients,
                   mr_platformReturns = map castPlatformReturn (platforms returns),
                   calculatedAt = clock,
                   clientReturnIds = [firstId ..< firstId + length clients],
                   platformReturnIds =
                     [firstId + length clients
                        ..< firstId + length clients + length (platforms returns)],
                   createdAt =
                     (case monthlyReturns d (getTime (startOfMonth monthDate)) of
                        None \<Rightarrow> clock
                      | Some stored \<Rightarrow> createdAt stored),
                   updatedAt = clock\<rparr>),
                nextObjectId := firstId + length clients + length (platforms returns)\<rparr>))"

text \<open>
  The route that computes a month from the weekly data calls
  \<open>calculateMonthlyReturns(monthDate, monthlyReturn)\<close>. The function declares the
  single parameter \<open>monthDate\<close>; a second argument of a call is bound to nothing.
\<close>

definition calculateMonthlyReturns_call ::
  "db \<Rightarrow> jsdate \<Rightarrow> jsdate \<Rightarrow> rat option \<Rightarrow> error + db" where
  "calculateMonthlyReturns_call d clock monthDate secondArgument =
     calculateMonthlyReturns d clock monthDate"

subsection \<open>getMonthsFromDate and recalculateFromDate\<close>

lemma getTime_setMonth_next:
  "getTime (setMonth current (getMonth current + 1))
     = getTime current + daysInMonth (monthIndex current) * msPerDay"
proof -
  have "12 * getFullYear current + (getMonth current + 1) = monthIndex current + 1"
    by (simp add: getFullYear_def getMonth_def)
  then have "getTime (setMonth current (getMonth current + 1))
      = monthStartDay (monthIndex current + 1) * msPerDay + msInMonth current"
    by (simp only: setMonth_def getTime_normDate)
  also have "\<dots> = getTime current + daysInMonth (monthIndex current) * msPerDay"
    unfolding monthStartDay_step getTime_def by (simp add: algebra_simps)
  finally show ?thesis .
qed

function monthsLoop :: "jsdate \<Rightarrow> jsdate \<Rightarrow> jsdate list" where
  "monthsLoop now current =
     (if date_le current now
      then current # monthsLoop now (setMonth current (getMonth current + 1))
      else [])"
  by pat_completeness auto

termination monthsLoop
proof (relation "measure (\<lambda>(now, current). nat (getTime now - getTime current + 1))")
  show "wf (measure (\<lambda>(now, current). nat (getTime now - getTime current + 1)))"
    by simp
next
  fix now current :: jsdate
  assume "date_le current now"
  then have "getTime current \<le> getTime now" by (simp add: date_le_def)
  moreover have "getTime current < getTime (setMonth current (getMonth current + 1))"
    using daysInMonth_ms_pos[of "monthIndex current"] by (simp add: getTime_setMonth_next)
  ultimately show "((now, setMonth current (getMonth current + 1)), (now, current))
      \<in> measure (\<lambda>(now, current). nat (getTime now - getTime current + 1))"
    by simp
qed

declare monthsLoop.simps [simp del]

definition getMonthsFromDate :: "jsdate \<Rightarrow> jsdate \<Rightarrow> jsdate list" where
  "getMonthsFromDate now fromDate = monthsLoop now (startOfMonth fromDate)"

text \<open>
  \<open>recalculateFromDate\<close> reads the clock once for the list of months
  (\<open>clock 0\<close>) and once in every monthly calculation (\<open>clock 1\<close>, \<open>clock 2\<close>, ...).
  An exception of a monthly calculation ends the loop; the months written before it
  stay written.
\<close>

record recalculation =
  success :: bool
  monthsRecalculated :: nat

fun forMonths :: "(nat \<Rightarrow> jsdate) \<Rightarrow> nat \<Rightarrow> jsdate list \<Rightarrow> db \<Rightarrow> db \<times> error option" where
  "forMonths clock n [] d = (d, None)"
| "forMonths clock n (m # months) d =
     (case calculateMonthlyReturns d (clock n) m of
        Inl e \<Rightarrow> (d, Some e)
      | Inr d' \<Rightarrow> forMonths clock (Suc n) months d')"

definition recalculateFromDate ::
  "db \<Rightarrow> (nat \<Rightarrow> jsdate) \<Rightarrow> jsdate \<Rightarrow> db \<times> (error + recalculation)" where
  "recalculateFromDate d clock fromDate =
     (let months = getMonthsFromDate (clock 0) fromDate in
      case forMonths clock 1 months d of
        (d', Some e) \<Rightarrow> (d', Inl e)
      | (d', None) \<Rightarrow> (d', Inr \<lparr>success = True, monthsRecalculated = length months\<rparr>))"

section \<open>The weekly interpolator\<close>

text \<open>
  Division of the language: by zero it gives an infinity, or \<open>NaN\<close> for \<open>0 / 0\<close>.
\<close>

definition js_div :: "rat \<Rightarrow> rat \<Rightarrow> jsnum" where
  "js_div a b =
     (if b \<noteq> 0 then Num (a / b)
      else if 0 < a then PosInfinity else if a < 0 then NegInfinity else NaN)"

fun js_percent :: "jsnum \<Rightarrow> jsnum" where
  "js_percent (Num r) = Num (r * 100)"
| "js_percent x = x"

text \<open>
  \<open>getWeekNumber\<close> moves to the Thursday of the week of \<open>date\<close> and counts the weeks
  since the first of January of that Thursday's year. Day 0 of the time scale is a
  Thursday.
\<close>

definition getWeekNumber :: "jsdate \<Rightarrow> int" where
  "getWeekNumber date =
     (let d = newDate (getFullYear date) (getMonth date) (getDate date);
          weekday = (getTime d div msPerDay + 4) mod 7;
          dayNum = (if weekday = 0 then 7 else weekday);
          thursday = addDays d (4 - dayNum);
          yearStart = newDate (getFullYear thursday) 0 1
      in ceiling
           ((of_int (getTime thursday - getTime yearStart) / 86400000 + 1) / 7 :: rat))"

text \<open>
  The two \<open>findOne\<close> queries of the loop: the stored week of the platform that ended
  last before \<open>currentWeek\<close>, and the one that starts first after it. Among equal sort
  keys the earlier document of the collection is taken.
\<close>

definition findBefore :: "weeklyPlatformData list \<Rightarrow> nat \<Rightarrow> jsdate \<Rightarrow> weeklyPlatformData option" where
  "findBefore rows pid currentWeek =
     (case sort_key (\<lambda>w. - getTime (weekEndDate w))
             (filter (\<lambda>w. wk_platformId w = pid \<and> date_less (weekEndDate w) currentWeek) rows) of
        [] \<Rightarrow> None
      | w # ws \<Rightarrow> Some w)"

definition findAfter :: "weeklyPlatformData list \<Rightarrow> nat \<Rightarrow> jsdate \<Rightarrow> weeklyPlatformData option" where
  "findAfter rows pid currentWeek =
     (case sort_key (\<lambda>w. getTime (weekStartDate w))
             (filter (\<lambda>w. wk_platformId w = pid \<and> date_less currentWeek (weekStartDate w)) rows) of
        [] \<Rightarrow> None
      | w # ws \<Rightarrow> Some w)"

text \<open>
  \<open>WeeklyPlatformData.create\<close> validates the document, which fails on a number that
  is \<open>NaN\<close>, and inserts it, which fails when the platform already has a week with
  that start (the unique index of the collection).
\<close>

definition create :: "weeklyPlatformData list \<Rightarrow> weeklyPlatformData \<Rightarrow> error + weeklyPlatformData list" where
  "create rows doc =
     (if weeklyReturn doc = NaN then Inl ValidationError
      else if list_ex (\<lambda>w. wk_platformId w = wk_platformId doc
                \<and> getTime (weekStartDate w) = getTime (weekStartDate doc)) rows
        then Inl DuplicateKeyError
      else Inr (rows @ [doc]))"

text \<open>The body of the \<open>while\<close> loop, for one platform and one week.\<close>

definition interpolatedWeek ::
  "nat \<Rightarrow> jsdate \<Rightarrow> weeklyPlatformData \<Rightarrow> weeklyPlatformData \<Rightarrow> weeklyPlatformData" where
  "interpolatedWeek pid currentWeek beforeWeek afterWeek =
     (let weeksBetween =
            ceiling (of_int (getTime (weekStartDate afterWeek) - getTime (weekEndDate beforeWeek))
                     / (7 * 24 * 60 * 60 * 1000) :: rat);
          valueChange = openingValue afterWeek - closingValue beforeWeek;
          changePerWeek = valueChange / of_int weeksBetween;
          interpolatedValue = closingValue beforeWeek + changePerWeek
      in \<lparr>wk_platformId = pid,
          weekStartDate = currentWeek,
          weekEndDate = addDays currentWeek 6,
          weekNumber = getWeekNumber currentWeek,
          year = getFullYear currentWeek,
          openingValue = closingValue beforeWeek,
          closingValue = interpolatedValue,
          weeklyReturn =
            js_percent (js_div (interpolatedValue - closingValue beforeWeek) (closingValue beforeWeek)),
          profitAmount = interpolatedValue - closingValue beforeWeek,
          wk_notes = Some ''Auto-interpolated'',
          enteredBy = None,
          isInterpolated = True\<rparr>)"

definition interpolateWeek ::
  "nat \<Rightarrow> weeklyPlatformData list \<Rightarrow> jsdate \<Rightarrow> weeklyPlatformData list
    \<Rightarrow> error + weeklyPlatformData list" where
  "interpolateWeek pid existingWeeks currentWeek rows =
     (let weekExists = list_ex (\<lambda>w. sameDateString (weekStartDate w) currentWeek) existingWeeks
      in if \<not> weekExists then
           (case (findBefore rows pid currentWeek, findAfter rows pid currentWeek) of
              (Some beforeWeek, Some afterWeek) \<Rightarrow>
                create rows (interpolatedWeek pid currentWeek beforeWeek afterWeek)
            | _ \<Rightarrow> Inr rows)
         else Inr rows)"

lemma getTime_addDays: "getTime (addDays d n) = getTime d + n * msPerDay"
proof -
  have "getTime (addDays d n) = monthStartDay (monthIndex d) * msPerDay + (msInMonth d + n * msPerDay)"
    by (simp only: addDays_def getTime_normDate)
  then show ?thesis by (simp add: getTime_def)
qed

function weekLoop ::
  "nat \<Rightarrow> weeklyPlatformData list \<Rightarrow> jsdate \<Rightarrow> jsdate \<Rightarrow> weeklyPlatformData list
    \<Rightarrow> weeklyPlatformData list \<times> error option" where
  "weekLoop pid existingWeeks endDate currentWeek rows =
     (if date_le currentWeek endDate then
        (case interpolateWeek pid existingWeeks currentWeek rows of
           Inl e \<Rightarrow> (rows, Some e)
         | Inr rows' \<Rightarrow> weekLoop pid existingWeeks endDate (addDays currentWeek 7) rows')
      else (rows, None))"
  by pat_completeness auto

termination weekLoop
proof (relation "measure (\<lambda>(pid, existingWeeks, endDate, currentWeek, rows).
    nat (getTime endDate - getTime currentWeek + 1))")
  show "wf (measure (\<lambda>(pid, existingWeeks, endDate, currentWeek, rows).
      nat (getTime endDate - getTime currentWeek + 1)))"
    by simp
next
  fix pid :: nat and existingWeeks rows rows' :: "weeklyPlatformData list"
    and endDate currentWeek :: jsdate
  assume "date_le currentWeek endDate"
  then have "getTime currentWeek \<le> getTime endDate" by (simp add: date_le_def)
  then show "((pid, existingWeeks, endDate, addDays currentWeek 7, rows'),
        (pid, existingWeeks, endDate, currentWeek, rows))
      \<in> measure (\<lambda>(pid, existingWeeks, endDate, currentWeek, rows).
          nat (getTime endDate - getTime currentWeek + 1))"
    by (simp add: getTime_addDays msPerDay_def)
qed

declare weekLoop.simps [simp del]

text \<open>
  \<open>interpolateMissingWeeks\<close>: for every active platform, the weeks of the platform that
  start in the range are fetched once, then the range is walked from \<open>startDate\<close> in
  steps of seven days. An exception ends everything; the rows created before it stay.
\<close>

fun forPlatforms ::
  "jsdate \<Rightarrow> jsdate \<Rightarrow> platformInvestment list \<Rightarrow> weeklyPlatformData list
    \<Rightarrow> weeklyPlatformData list \<times> error option" where
  "forPlatforms startDate endDate [] rows = (rows, None)"
| "forPlatforms startDate endDate (platform # rest) rows =
     (let existingWeeks =
            sort_key (\<lambda>w. getTime (weekStartDate w))
              (filter (\<lambda>w. wk_platformId w = pl_id platform
                    \<and> date_le startDate (weekStartDate w)
                    \<and> date_le (weekStartDate w) endDate) rows)
      in case weekLoop (pl_id platform) existingWeeks endDate startDate rows of
           (rows', Some e) \<Rightarrow> (rows', Some e)
         | (rows', None) \<Rightarrow> forPlatforms startDate endDate rest rows')"

definition interpolateMissingWeeks :: "db \<Rightarrow> jsdate \<Rightarrow> jsdate \<Rightarrow> db \<times> error option" where
  "interpolateMissingWeeks d startDate endDate =
     (case forPlatforms startDate endDate
             (filter (\<lambda>p. pl_status p = platform_active) (platformInvestments d))
             (weeklyData d) of
        (rows', r) \<Rightarrow> (d\<lparr>weeklyData := rows'\<rparr>, r))"

section \<open>The platform return aggregation\<close>



section \<open>The corpus resolver\<close>

subsection \<open>Rounding to two decimals\<close>

lemma toFixed2_close: "\<bar>toFixed2 x - x\<bar> \<le> 1 / 200"
proof (cases "x < 0")
  case True
  define n where "n = floor (- x * 100 + 1 / 2)"
  have "of_int n \<le> - x * 100 + 1 / 2" "- x * 100 + 1 / 2 < of_int n + 1"
    unfolding n_def by linarith+
  then have "- (of_int n / 100) - x \<le> 1 / 200" "- (- (of_int n / 100) - x) \<le> 1 / 200"
    by (simp_all add: field_simps)
  then have "\<bar>- (of_int n / 100) - x\<bar> \<le> 1 / 200"
    by (rule abs_leI)
  with True show ?thesis by (simp add: toFixed2_def n_def)
next
  case False
  define n where "n = floor (x * 100 + 1 / 2)"
  have "of_int n \<le> x * 100 + 1 / 2" "x * 100 + 1 / 2 < of_int n + 1"
    unfolding n_def by linarith+
  then have "of_int n / 100 - x \<le> 1 / 200" "- (of_int n / 100 - x) \<le> 1 / 200"
    by (simp_all add: field_simps)
  then have "\<bar>of_int n / 100 - x\<bar> \<le> 1 / 200"
    by (rule abs_leI)
  with False show ?thesis by (simp add: toFixed2_def n_def)
qed

lemma toFixed2_hundredths: "\<exists>n::int. toFixed2 x = of_int n / 100"
proof (cases "x < 0")
  case True
  then have "toFixed2 x = of_int (- floor (- x * 100 + 1 / 2)) / 100"
    by (simp add: toFixed2_def)
  then show ?thesis by blast
next
  case False
  then have "toFixed2 x = of_int (floor (x * 100 + 1 / 2)) / 100"
    by (simp add: toFixed2_def)
  then show ?thesis by blast
qed

subsection \<open>The grouping loop\<close>

text \<open>
  \<open>clientTotal\<close> reads the running total of a client out of the grouped entries. The
  loop adds every signed amount once to the corpus and once to the entry of its client,
  keeps one entry per client, and stops at the first investment without a client.
\<close>

definition clientTotal :: "clientInvestment list \<Rightarrow> nat \<Rightarrow> rat" where
  "clientTotal cs cid = sum_list (map totalInvestment (filter (\<lambda>c. clientId c = cid) cs))"

lemma addToClient_ids: "map clientId (addToClient cid a cs) = map clientId cs"
  by (induction cs) simp_all

lemma addToClient_sum:
  "list_ex (\<lambda>c. clientId c = cid) cs \<Longrightarrow>
   sum_list (map totalInvestment (addToClient cid a cs)) = sum_list (map totalInvestment cs) + a"
  by (induction cs) auto

lemma addToClient_total:
  "list_ex (\<lambda>c. clientId c = cid) cs \<Longrightarrow>
   clientTotal (addToClient cid a cs) k = clientTotal cs k + (if k = cid then a else 0)"
  by (induction cs) (auto simp: clientTotal_def)

lemma groupByClient_inv:
  assumes "groupByClient xs cs t = Inr (cs', t')"
  shows "t' = t + sum_list (map (signedAmount \<circ> fst) xs)"
    and "sum_list (map totalInvestment cs') = sum_list (map totalInvestment cs) + sum_list (map (signedAmount \<circ> fst) xs)"
    and "clientTotal cs' k = clientTotal cs k
          + sum_list (map (signedAmount \<circ> fst) (filter (\<lambda>x. map_option user_id (snd x) = Some k) xs))"
    and "set (map clientId cs') = set (map clientId cs) \<union> {k. \<exists>x \<in> set xs. map_option user_id (snd x) = Some k}"
    and "distinct (map clientId cs) \<Longrightarrow> distinct (map clientId cs')"
    and "list_all (\<lambda>x. snd x \<noteq> None) xs"
  using assms
proof (induction xs cs t rule: groupByClient.induct)
  case (1 cs t)
  { case 1 then show ?case by simp }
  { case 2 then show ?case by simp }
  { case 3 then show ?case by simp }
  { case 4 then show ?case by simp }
  { case 5 then show ?case by simp }
  { case 6 then show ?case by simp }
next
  case (2 i rest cs t)
  { case 1 then show ?case by simp }
  { case 2 then show ?case by simp }
  { case 3 then show ?case by simp }
  { case 4 then show ?case by simp }
  { case 5 then show ?case by simp }
  { case 6 then show ?case by simp }
next
  case (3 i u rest cs t)
  define cid where "cid = user_id u"
  define entries where "entries = (if list_ex (\<lambda>c. clientId c = cid) cs then cs
             else cs @ [\<lparr>clientId = cid, clientName = user_name u, totalInvestment = 0\<rparr>])"
  define a where "a = signedAmount i"
  have ex: "list_ex (\<lambda>c. clientId c = cid) entries"
    by (auto simp: entries_def list_ex_iff)
  have e_sum: "sum_list (map totalInvestment entries) = sum_list (map totalInvestment cs)"
    by (simp add: entries_def)
  have e_tot: "clientTotal entries k = clientTotal cs k" for k
    by (simp add: entries_def clientTotal_def)
  have e_ids: "set (map clientId entries) = insert cid (set (map clientId cs))"
    by (auto simp: entries_def list_ex_iff)
  have e_dist: "distinct (map clientId cs) \<Longrightarrow> distinct (map clientId entries)"
    by (auto simp: entries_def list_ex_iff)
  note IH = 3(1-6)[OF cid_def entries_def a_def]
  have step: "groupByClient ((i, Some u) # rest) cs t
      = groupByClient rest (addToClient cid a entries) (t + a)"
    by (simp add: Let_def cid_def entries_def a_def)
  { case 1
    then have r: "groupByClient rest (addToClient cid a entries) (t + a) = Inr (cs', t')"
      by (simp only: step)
    show ?case using IH(1)[OF r] by (simp add: a_def) }
  { case 2
    then have r: "groupByClient rest (addToClient cid a entries) (t + a) = Inr (cs', t')"
      by (simp only: step)
    show ?case using IH(2)[OF r] addToClient_sum[OF ex, of a] e_sum by (simp add: a_def) }
  { case 3
    then have r: "groupByClient rest (addToClient cid a entries) (t + a) = Inr (cs', t')"
      by (simp only: step)
    show ?case using IH(3)[OF r] addToClient_total[OF ex, of a k] e_tot[of k]
      by (auto simp: a_def cid_def) }
  { case 4
    then have r: "groupByClient rest (addToClient cid a entries) (t + a) = Inr (cs', t')"
      by (simp only: step)
    show ?case using IH(4)[OF r] e_ids 
      by (auto simp: addToClient_ids cid_def) }
  { case 5
    then have r: "groupByClient rest (addToClient cid a entries) (t + a) = Inr (cs', t')"
      by (simp only: step)
    show ?case using IH(5)[OF _ r] e_dist 5(1) by (simp add: addToClient_ids) }
  { case 6
    then have r: "groupByClient rest (addToClient cid a entries) (t + a) = Inr (cs', t')"
      by (simp only: step)
    show ?case using IH(6)[OF r] by simp }
qed


lemma populate_fst [simp]: "fst (populate d i) = i"
  by (simp add: populate_def)

lemma populate_Some:
  "snd (populate d i) = Some u \<Longrightarrow> user_id u = inv_clientId i"
  by (auto simp: populate_def find_Some_iff)

lemma populated_filter:
  assumes "list_all (\<lambda>x. snd x \<noteq> None) (map (populate d) xs)"
  shows "map (signedAmount \<circ> fst)
           (filter (\<lambda>x. map_option user_id (snd x) = Some k) (map (populate d) xs))
         = map signedAmount (filter (\<lambda>i. inv_clientId i = k) xs)"
  using assms
proof (induction xs)
  case Nil
  then show ?case by simp
next
  case (Cons i xs)
  from Cons.prems obtain u where u: "snd (populate d i) = Some u" by auto
  then have "user_id u = inv_clientId i" by (rule populate_Some)
  with u Cons show ?case by auto
qed

lemma populated_ids:
  assumes "list_all (\<lambda>x. snd x \<noteq> None) (map (populate d) xs)"
  shows "{k. \<exists>x \<in> set (map (populate d) xs). map_option user_id (snd x) = Some k}
         = set (map inv_clientId xs)"
  using assms
proof (induction xs)
  case Nil
  then show ?case by simp
next
  case (Cons i xs)
  from Cons.prems obtain u where u: "snd (populate d i) = Some u" by auto
  then have "user_id u = inv_clientId i" by (rule populate_Some)
  with u Cons show ?case by auto
qed

lemma clientTotal_distinct:
  "distinct (map clientId cs) \<Longrightarrow> c \<in> set cs \<Longrightarrow> clientTotal cs (clientId c) = totalInvestment c"
proof (induction cs)
  case Nil
  then show ?case by simp
next
  case (Cons a cs)
  show ?case
  proof (cases "c = a")
    case True
    have "clientId a \<notin> clientId ` set cs" using Cons.prems(1) by simp
    then have "\<forall>x \<in> set cs. clientId x \<noteq> clientId a" by (metis imageI)
    then have "filter (\<lambda>x. clientId x = clientId a) cs = []"
      by (simp add: filter_empty_conv)
    with True show ?thesis by (simp add: clientTotal_def)
  next
    case False
    with Cons.prems have "c \<in> set cs" "clientId a \<noteq> clientId c" by auto
    with Cons show ?thesis by (simp add: clientTotal_def)
  qed
qed

lemma getCorpusAtDate_Inr:
  assumes "getCorpusAtDate d date = Inr corpus"
  obtains cs t where
    "groupByClient (map (populate d) (selectedInvestments d date)) [] 0 = Inr (cs, t)"
    "totalCorpus corpus = t"
    "clientShares corpus = map (withSharePercentage t) cs"
  using assms unfolding getCorpusAtDate_def withSharePercentage_def
  by (auto split: sum.splits)


lemma groupByClient_total:
  "list_all (\<lambda>x. snd x \<noteq> None) xs \<Longrightarrow> \<exists>r. groupByClient xs cs t = Inr r"
proof (induction xs cs t rule: groupByClient.induct)
  case (1 cs t)
  then show ?case by simp
next
  case (2 i rest cs t)
  then show ?case by simp
next
  case (3 i u rest cs t)
  then show ?case by (simp add: Let_def)
qed

lemma groupByClient_Inl:
  "groupByClient xs cs t = Inl e \<Longrightarrow> e = TypeError \<and> \<not> list_all (\<lambda>x. snd x \<noteq> None) xs"
proof (induction xs cs t rule: groupByClient.induct)
  case (1 cs t)
  then show ?case by simp
next
  case (2 i rest cs t)
  then show ?case by simp
next
  case (3 i u rest cs t)
  then show ?case by (simp add: Let_def)
qed

lemma populate_found:
  "snd (populate d i) \<noteq> None \<longleftrightarrow> list_ex (\<lambda>u. user_id u = inv_clientId i) (users d)"
  by (auto simp: populate_def find_None_iff list_ex_iff)

subsection \<open>A ledger with two clients\<close>

definition ledgerA :: db where
  "ledgerA =
     \<lparr>users = [\<lparr>user_id = 1, user_name = ''Asha''\<rparr>, \<lparr>user_id = 2, user_name = ''Ben''\<rparr>],
      investments =
        [\<lparr>inv_clientId = 1, inv_amount = 1000, inv_investmentDate = newDate 2024 0 10,
          inv_type = deposit, inv_status = active\<rparr>,
         \<lparr>inv_clientId = 2, inv_amount = 500, inv_investmentDate = newDate 2024 1 5,
          inv_type = deposit, inv_status = active\<rparr>,
         \<lparr>inv_clientId = 1, inv_amount = 200, inv_investmentDate = newDate 2024 1 20,
          inv_type = withdrawal, inv_status = active\<rparr>,
         \<lparr>inv_clientId = 2, inv_amount = 999, inv_investmentDate = newDate 2024 1 21,
          inv_type = deposit, inv_status = cancelled\<rparr>,
         \<lparr>inv_clientId = 1, inv_amount = 50, inv_investmentDate = newDate 2024 2 1,
          inv_type = deposit, inv_status = active\<rparr>],
      platformInvestments = [],
      monthlyReturns = Map.empty,
      weeklyData = [],
      nextObjectId = 100\<rparr>"

definition corpusA :: corpusData where
  "corpusA =
     \<lparr>totalCorpus = 1300,
      clientShares =
        [\<lparr>clientId = 1, clientName = ''Asha'', totalInvestment = 800,
          sharePercentage = 6154 / 100\<rparr>,
         \<lparr>clientId = 2, clientName = ''Ben'', totalInvestment = 500,
          sharePercentage = 3846 / 100\<rparr>]\<rparr>"

lemma ledgerA_corpus: "getCorpusAtDate ledgerA (newDate 2024 1 29) = Inr corpusA"
  by code_simp

text \<open>
  The corpus in exact arithmetic. For every cutoff date, \<open>getCorpusAtDate\<close> considers
  exactly the investments with status \<open>active\<close> and \<open>investmentDate \<le> date\<close>; a
  deposit adds its amount and a withdrawal subtracts it from the client's
  \<open>totalInvestment\<close>; there is one share per client of a considered investment;
  \<open>totalCorpus\<close> is the sum of the clients' \<open>totalInvestment\<close> (and of all signed
  amounts); \<open>sharePercentage\<close> is \<open>totalInvestment / totalCorpus * 100\<close> rounded to two
  decimals (a multiple of 1/100 within 1/200 of the quotient) when \<open>totalCorpus\<close> is
  not zero, and 0 when it is; a ledger that is empty or entirely cancelled gives
  \<open>totalCorpus = 0\<close> and no shares. The first part is about the computations that
  return a corpus.
\<close>

theorem corpus_at_date:
  fixes d :: db and date :: jsdate
  defines "sel \<equiv>
    filter (\<lambda>i. date_le (inv_investmentDate i) date \<and> inv_status i = active) (investments d)"
  defines "signed \<equiv> \<lambda>i. if inv_type i = deposit then inv_amount i else - inv_amount i"
  shows "(getCorpusAtDate d date = Inr corpus \<longrightarrow>
            distinct (map clientId (clientShares corpus))
          \<and> set (map clientId (clientShares corpus)) = set (map inv_clientId sel)
          \<and> (\<forall>share \<in> set (clientShares corpus).
                totalInvestment share =
                  sum_list (map signed (filter (\<lambda>i. inv_clientId i = clientId share) sel))
              \<and> sharePercentage share =
                  (if totalCorpus corpus = 0 then 0
                   else toFixed2 (totalInvestment share / totalCorpus corpus * 100))
              \<and> (totalCorpus corpus \<noteq> 0 \<longrightarrow>
                  \<bar>sharePercentage share - totalInvestment share / totalCorpus corpus * 100\<bar>
                    \<le> 1 / 200)
              \<and> (\<exists>n::int. sharePercentage share = of_int n / 100))
          \<and> totalCorpus corpus = sum_list (map totalInvestment (clientShares corpus))
          \<and> totalCorpus corpus = sum_list (map signed sel))
      \<and> ((\<forall>i \<in> set (investments d). inv_status i = cancelled) \<longrightarrow>
            getCorpusAtDate d date = Inr \<lparr>totalCorpus = 0, clientShares = []\<rparr>)"
proof (intro conjI impI)
  assume "\<forall>i \<in> set (investments d). inv_status i = cancelled"
  then have "selectedInvestments d date = []"
    by (auto simp: selectedInvestments_def filter_empty_conv)
  then show "getCorpusAtDate d date = Inr \<lparr>totalCorpus = 0, clientShares = []\<rparr>"
    by (simp add: getCorpusAtDate_def)
next
  assume ok: "getCorpusAtDate d date = Inr corpus"
  have signed: "signed = signedAmount"
    by (rule ext) (simp add: signed_def signedAmount_def, metis investmentType.exhaust)
  have sel: "sel = selectedInvestments d date"
    by (simp add: sel_def selectedInvestments_def)
  from ok obtain cs t where
    g: "groupByClient (map (populate d) sel) [] 0 = Inr (cs, t)"
    and tc: "totalCorpus corpus = t"
    and sh: "clientShares corpus = map (withSharePercentage t) cs"
    unfolding sel by (rule getCorpusAtDate_Inr)
  note inv = groupByClient_inv[OF g]
  have ids: "map clientId (clientShares corpus) = map clientId cs"
    by (simp add: sh withSharePercentage_def comp_def)
  have tots: "map totalInvestment (clientShares corpus) = map totalInvestment cs"
    by (simp add: sh withSharePercentage_def comp_def)
  have dist: "distinct (map clientId cs)" using inv(5) by simp
  show "distinct (map clientId (clientShares corpus))" using dist ids by simp
  show "set (map clientId (clientShares corpus)) = set (map inv_clientId sel)"
    using inv(4) populated_ids[OF inv(6)] ids by simp
  show "totalCorpus corpus = sum_list (map signed sel)"
    using inv(1) tc by (simp add: signed comp_def)
  show "totalCorpus corpus = sum_list (map totalInvestment (clientShares corpus))"
    using inv(1) inv(2) tc tots by simp
  show "\<forall>share \<in> set (clientShares corpus).
                totalInvestment share =
                  sum_list (map signed (filter (\<lambda>i. inv_clientId i = clientId share) sel))
              \<and> sharePercentage share =
                  (if totalCorpus corpus = 0 then 0
                   else toFixed2 (totalInvestment share / totalCorpus corpus * 100))
              \<and> (totalCorpus corpus \<noteq> 0 \<longrightarrow>
                  \<bar>sharePercentage share - totalInvestment share / totalCorpus corpus * 100\<bar>
                    \<le> 1 / 200)
              \<and> (\<exists>n::int. sharePercentage share = of_int n / 100)"
  proof
    fix share assume "share \<in> set (clientShares corpus)"
    then obtain c where c: "c \<in> set cs" and s: "share = withSharePercentage t c"
      using sh by auto
    have f: "clientId share = clientId c" "totalInvestment share = totalInvestment c"
      "sharePercentage share = (if t = 0 then 0 else toFixed2 (totalInvestment c / t * 100))"
      by (simp_all add: s withSharePercentage_def)
    have "clientTotal cs (clientId c) =
        sum_list (map signedAmount (filter (\<lambda>i. inv_clientId i = clientId c) sel))"
      using inv(3)[of "clientId c"] populated_filter[OF inv(6), of "clientId c"]
      by (simp add: clientTotal_def)
    then have a: "totalInvestment share =
        sum_list (map signed (filter (\<lambda>i. inv_clientId i = clientId share) sel))"
      using clientTotal_distinct[OF dist c] f by (simp add: signed)
    have b: "sharePercentage share =
        (if totalCorpus corpus = 0 then 0
         else toFixed2 (totalInvestment share / totalCorpus corpus * 100))"
      using f tc by simp
    have c': "totalCorpus corpus \<noteq> 0 \<longrightarrow>
        \<bar>sharePercentage share - totalInvestment share / totalCorpus corpus * 100\<bar> \<le> 1 / 200"
      using b toFixed2_close[of "totalInvestment share / totalCorpus corpus * 100"] by simp
    have d': "\<exists>n::int. sharePercentage share = of_int n / 100"
    proof (cases "totalCorpus corpus = 0")
      case True
      then have "sharePercentage share = of_int 0 / 100" using b by simp
      then show ?thesis by blast
    next
      case False
      then show ?thesis using b toFixed2_hundredths by simp
    qed
    show "totalInvestment share =
                  sum_list (map signed (filter (\<lambda>i. inv_clientId i = clientId share) sel))
              \<and> sharePercentage share =
                  (if totalCorpus corpus = 0 then 0
                   else toFixed2 (totalInvestment share / totalCorpus corpus * 100))
              \<and> (totalCorpus corpus \<noteq> 0 \<longrightarrow>
                  \<bar>sharePercentage share - totalInvestment share / totalCorpus corpus * 100\<bar>
                    \<le> 1 / 200)
              \<and> (\<exists>n::int. sharePercentage share = of_int n / 100)"
      using a b c' d' by blast
  qed
qed


definition ledgerCancelled :: db where
  "ledgerCancelled =
     \<lparr>users = [\<lparr>user_id = 1, user_name = ''Asha''\<rparr>],
      investments =
        [\<lparr>inv_clientId = 1, inv_amount = 1000, inv_investmentDate = newDate 2024 0 10,
          inv_type = deposit, inv_status = cancelled\<rparr>],
      platformInvestments = [],
      monthlyReturns = Map.empty,
      weeklyData = [],
      nextObjectId = 100\<rparr>"

theorem corpus_at_date_witness:
  "getCorpusAtDate ledgerA (newDate 2024 1 29) = Inr corpusA
   \<and> distinct (map clientId (clientShares corpusA))
   \<and> totalCorpus corpusA = sum_list (map totalInvestment (clientShares corpusA))
   \<and> getCorpusAtDate ledgerCancelled (newDate 2024 1 29)
        = Inr \<lparr>totalCorpus = 0, clientShares = []\<rparr>"
proof -
  note t = corpus_at_date[where d = ledgerA and date = "newDate 2024 1 29" and corpus = corpusA]
  have a: "distinct (map clientId (clientShares corpusA))
      \<and> totalCorpus corpusA = sum_list (map totalInvestment (clientShares corpusA))"
    using t[THEN conjunct1, THEN mp, OF ledgerA_corpus] by blast
  have "\<forall>i \<in> set (investments ledgerCancelled). inv_status i = cancelled"
    by (simp add: ledgerCancelled_def)
  then have b: "getCorpusAtDate ledgerCancelled (newDate 2024 1 29)
        = Inr \<lparr>totalCorpus = 0, clientShares = []\<rparr>"
    by (rule corpus_at_date[where d = ledgerCancelled, THEN conjunct2, THEN mp])
  show ?thesis using ledgerA_corpus a b by blast
qed

subsection \<open>The corpus on doubles\<close>

text \<open>
  \<open>totalOf\<close> reads the running total of a client out of the grouped entries (zero for
  a client without an entry). The loop on doubles keeps one entry per client; the total
  of a client is the running sum of that client's signed amounts, in the order of the
  ledger, and the corpus the running sum of all of them.
\<close>

definition totalOf :: "clientInvestment_double list \<Rightarrow> nat \<Rightarrow> jsnum" where
  "totalOf cs k =
     (case find (\<lambda>c. d_clientId c = k) cs of
        None \<Rightarrow> Num 0
      | Some c \<Rightarrow> d_totalInvestment c)"

lemma addToClient_double_ids:
  "map d_clientId (addToClient_double cid a cs) = map d_clientId cs"
  by (induction cs) simp_all

lemma addToClient_double_total:
  "list_ex (\<lambda>c. d_clientId c = cid) cs \<Longrightarrow>
   totalOf (addToClient_double cid a cs) k
     = (if k = cid then num_add (totalOf cs cid) a else totalOf cs k)"
  by (induction cs) (auto simp: totalOf_def)

lemma totalOf_new:
  "totalOf (cs @ [\<lparr>d_clientId = cid, d_clientName = n, d_totalInvestment = Num 0\<rparr>]) k
     = totalOf cs k"
  by (induction cs) (auto simp: totalOf_def)

lemma totalOf_distinct:
  "distinct (map d_clientId cs) \<Longrightarrow> c \<in> set cs \<Longrightarrow> totalOf cs (d_clientId c) = d_totalInvestment c"
proof (induction cs)
  case Nil
  then show ?case by simp
next
  case (Cons a cs)
  show ?case
  proof (cases "d_clientId a = d_clientId c")
    case True
    have "c = a"
    proof (rule ccontr)
      assume "c \<noteq> a"
      with Cons.prems(2) have "c \<in> set cs" by simp
      then have "d_clientId c \<in> d_clientId ` set cs" by (rule imageI)
      with Cons.prems(1) True show False by simp
    qed
    then show ?thesis by (simp add: totalOf_def)
  next
    case False
    with Cons.prems have "c \<in> set cs" by auto
    with Cons False show ?thesis by (simp add: totalOf_def)
  qed
qed

lemma groupByClient_double_inv:
  assumes "groupByClient_double xs cs t = Inr (cs', t')"
  shows "t' = foldl num_add t (map (signedAmount_double \<circ> fst) xs)"
    and "totalOf cs' k = foldl num_add (totalOf cs k)
          (map (signedAmount_double \<circ> fst)
            (filter (\<lambda>x. map_option user_id (snd x) = Some k) xs))"
    and "set (map d_clientId cs')
          = set (map d_clientId cs) \<union> {k. \<exists>x \<in> set xs. map_option user_id (snd x) = Some k}"
    and "distinct (map d_clientId cs) \<Longrightarrow> distinct (map d_clientId cs')"
    and "list_all (\<lambda>x. snd x \<noteq> None) xs"
  using assms
proof (induction xs cs t rule: groupByClient_double.induct)
  case (1 cs t)
  { case 1 then show ?case by simp }
  { case 2 then show ?case by simp }
  { case 3 then show ?case by simp }
  { case 4 then show ?case by simp }
  { case 5 then show ?case by simp }
next
  case (2 i rest cs t)
  { case 1 then show ?case by simp }
  { case 2 then show ?case by simp }
  { case 3 then show ?case by simp }
  { case 4 then show ?case by simp }
  { case 5 then show ?case by simp }
next
  case (3 i u rest cs t)
  define cid where "cid = user_id u"
  define entries where "entries = (if list_ex (\<lambda>c. d_clientId c = cid) cs then cs
             else cs @ [\<lparr>d_clientId = cid, d_clientName = user_name u, d_totalInvestment = Num 0\<rparr>])"
  define a where "a = signedAmount_double i"
  have ex: "list_ex (\<lambda>c. d_clientId c = cid) entries"
    by (auto simp: entries_def list_ex_iff)
  have e_tot: "totalOf entries k = totalOf cs k" for k
    by (simp add: entries_def totalOf_new)
  have e_ids: "set (map d_clientId entries) = insert cid (set (map d_clientId cs))"
    by (auto simp: entries_def list_ex_iff)
  have e_dist: "distinct (map d_clientId cs) \<Longrightarrow> distinct (map d_clientId entries)"
    by (auto simp: entries_def list_ex_iff)
  note IH = 3(1-5)[OF cid_def entries_def a_def]
  have step: "groupByClient_double ((i, Some u) # rest) cs t
      = groupByClient_double rest (addToClient_double cid a entries) (num_add t a)"
    by (simp add: Let_def cid_def entries_def a_def)
  { case 1
    then have r: "groupByClient_double rest (addToClient_double cid a entries) (num_add t a) = Inr (cs', t')"
      by (simp only: step)
    show ?case using IH(1)[OF r] by (simp add: a_def) }
  { case 2
    then have r: "groupByClient_double rest (addToClient_double cid a entries) (num_add t a) = Inr (cs', t')"
      by (simp only: step)
    show ?case using IH(2)[OF r] addToClient_double_total[OF ex, of a k] e_tot
      by (auto simp: a_def cid_def) }
  { case 3
    then have r: "groupByClient_double rest (addToClient_double cid a entries) (num_add t a) = Inr (cs', t')"
      by (simp only: step)
    show ?case using IH(3)[OF r] e_ids
      by (auto simp: addToClient_double_ids cid_def) }
  { case 4
    then have r: "groupByClient_double rest (addToClient_double cid a entries) (num_add t a) = Inr (cs', t')"
      by (simp only: step)
    show ?case using IH(4)[OF _ r] e_dist 4(1) by (simp add: addToClient_double_ids) }
  { case 5
    then have r: "groupByClient_double rest (addToClient_double cid a entries) (num_add t a) = Inr (cs', t')"
      by (simp only: step)
    show ?case using IH(5)[OF r] by simp }
qed

lemma populated_filter_map:
  assumes "list_all (\<lambda>x. snd x \<noteq> None) (map (populate d) xs)"
  shows "map (f \<circ> fst)
           (filter (\<lambda>x. map_option user_id (snd x) = Some k) (map (populate d) xs))
         = map f (filter (\<lambda>i. inv_clientId i = k) xs)"
  using assms
proof (induction xs)
  case Nil
  then show ?case by simp
next
  case (Cons i xs)
  from Cons.prems obtain u where u: "snd (populate d i) = Some u" by auto
  then have "user_id u = inv_clientId i" by (rule populate_Some)
  with u Cons show ?case by auto
qed

lemma getCorpusAtDate_double_Inr:
  assumes "getCorpusAtDate_double d date = Inr corpus"
  obtains cs t where
    "groupByClient_double (map (populate d) (selectedInvestments d date)) [] (Num 0) = Inr (cs, t)"
    "d_totalCorpus corpus = (if t = NaN \<or> t = Num 0 then Num 0 else t)"
    "d_clientShares corpus = map (withSharePercentage_double t) cs"
  using assms unfolding getCorpusAtDate_double_def
  by (auto split: sum.splits)

definition ledgerTenths :: db where
  "ledgerTenths =
     \<lparr>users = [\<lparr>user_id = 1, user_name = ''Asha''\<rparr>, \<lparr>user_id = 2, user_name = ''Ben''\<rparr>],
      investments =
        [\<lparr>inv_clientId = 2, inv_amount = 1 / 10, inv_investmentDate = newDate 2024 0 10,
          inv_type = deposit, inv_status = active\<rparr>,
         \<lparr>inv_clientId = 1, inv_amount = 7 / 10, inv_investmentDate = newDate 2024 0 11,
          inv_type = deposit, inv_status = active\<rparr>,
         \<lparr>inv_clientId = 1, inv_amount = 3 / 10, inv_investmentDate = newDate 2024 0 12,
          inv_type = deposit, inv_status = active\<rparr>],
      platformInvestments = [],
      monthlyReturns = Map.empty,
      weeklyData = [],
      nextObjectId = 100\<rparr>"

definition ledgerShares :: db where
  "ledgerShares =
     \<lparr>users = [\<lparr>user_id = 1, user_name = ''Asha''\<rparr>, \<lparr>user_id = 2, user_name = ''Ben''\<rparr>],
      investments =
        [\<lparr>inv_clientId = 1, inv_amount = 23, inv_investmentDate = newDate 2024 0 10,
          inv_type = deposit, inv_status = active\<rparr>,
         \<lparr>inv_clientId = 2, inv_amount = 137, inv_investmentDate = newDate 2024 0 11,
          inv_type = deposit, inv_status = active\<rparr>],
      platformInvestments = [],
      monthlyReturns = Map.empty,
      weeklyData = [],
      nextObjectId = 100\<rparr>"

definition ledgerZero :: db where
  "ledgerZero =
     \<lparr>users = [\<lparr>user_id = 1, user_name = ''Asha''\<rparr>, \<lparr>user_id = 2, user_name = ''Ben''\<rparr>],
      investments =
        [\<lparr>inv_clientId = 1, inv_amount = 1 / 10, inv_investmentDate = newDate 2024 0 10,
          inv_type = deposit, inv_status = active\<rparr>,
         \<lparr>inv_clientId = 2, inv_amount = 2 / 10, inv_investmentDate = newDate 2024 0 11,
          inv_type = deposit, inv_status = active\<rparr>,
         \<lparr>inv_clientId = 2, inv_amount = 3 / 10, inv_investmentDate = newDate 2024 0 12,
          inv_type = withdrawal, inv_status = active\<rparr>],
      platformInvestments = [],
      monthlyReturns = Map.empty,
      weeklyData = [],
      nextObjectId = 100\<rparr>"

text \<open>
  Claim C1 says that \<open>totalCorpus\<close> equals the sum of the clients'
  \<open>totalInvestment\<close>, and that \<open>sharePercentage\<close> is
  \<open>totalInvestment / totalCorpus * 100\<close> rounded to two decimals, or 0 when the corpus
  is zero. On doubles the sums are running sums and the quotient is rounded before
  \<open>toFixed\<close> sees it. With deposits of 0.1 for one client and of 0.7 and 0.3 for
  another, the corpus is 1.0999999999999999 and the clients' totals, 0.1 and 1, add up
  to 1.1. With deposits of 23 and 137 the first share is 14.37, where 14.375 rounds to
  14.38. With deposits of 0.1 and 0.2 and a withdrawal of 0.3 the corpus is not zero
  but \<open>2 ^ (- 54)\<close>, and the shares are about \<open>1.8 * 10 ^ 17\<close> and its negative.
\<close>

theorem double_rounding_counterexample:
  "(case getCorpusAtDate_double ledgerTenths (newDate 2024 1 29) of
      Inl e \<Rightarrow> False
    | Inr corpus \<Rightarrow>
        d_totalCorpus corpus = Num (4953959590107545 / 4503599627370496)
      \<and> map d_totalInvestment (d_clientShares corpus)
          = [Num (3602879701896397 / 36028797018963968), Num 1]
      \<and> foldl num_add (Num 0) (map d_totalInvestment (d_clientShares corpus))
          = Num (2476979795053773 / 2251799813685248)
      \<and> foldl num_add (Num 0) (map d_totalInvestment (d_clientShares corpus))
          \<noteq> d_totalCorpus corpus
      \<and> Num (3602879701896397 / 36028797018963968 + 1) \<noteq> d_totalCorpus corpus)
   \<and> (case getCorpusAtDate_double ledgerShares (newDate 2024 1 29) of
      Inl e \<Rightarrow> False
    | Inr corpus \<Rightarrow>
        d_totalCorpus corpus = Num 160
      \<and> map d_totalInvestment (d_clientShares corpus) = [Num 23, Num 137]
      \<and> map d_sharePercentage (d_clientShares corpus)
          = [toNumber (1437 / 100), toNumber (8563 / 100)]
      \<and> toFixed2 (23 / 160 * 100) = 1438 / 100
      \<and> toNumber (1437 / 100) \<noteq> toNumber (1438 / 100))
   \<and> (case getCorpusAtDate_double ledgerZero (newDate 2024 1 29) of
      Inl e \<Rightarrow> False
    | Inr corpus \<Rightarrow>
        d_totalCorpus corpus = Num (1 / 18014398509481984)
      \<and> map d_sharePercentage (d_clientShares corpus)
          = [Num 180143985094819840, Num (- 180143985094819808)]
      \<and> (1 / 10 + 2 / 10 - 3 / 10 :: rat) = 0)"
  by code_simp

text \<open>
  Claim C1, amended. For every cutoff date, \<open>getCorpusAtDate\<close> considers exactly the
  investments with status \<open>active\<close> and \<open>investmentDate \<le> date\<close>, and there is one
  share per client of a considered investment. A client's \<open>totalInvestment\<close> is the
  running double sum, in ledger order, of that client's signed amounts (the amount of a
  deposit, the negated amount of a withdrawal), and \<open>totalCorpus\<close> is the running
  double sum of all considered signed amounts, or 0 when that sum is \<open>NaN\<close>; it is
  never \<open>NaN\<close>. \<open>sharePercentage\<close> is 0 when the running sum is zero, and otherwise
  the double \<open>totalInvestment / totalCorpus * 100\<close> rounded to two decimals by
  \<open>toFixed\<close> and read back. A ledger that is empty or entirely cancelled gives
  \<open>totalCorpus = 0\<close> and no shares. The first part is about the computations that
  return a corpus.
\<close>

theorem corpus_at_date_double:
  fixes d :: db and date :: jsdate
  defines "sel \<equiv>
    filter (\<lambda>i. date_le (inv_investmentDate i) date \<and> inv_status i = active) (investments d)"
  defines "signed \<equiv> \<lambda>i. if inv_type i = deposit then toNumber (inv_amount i)
                          else num_neg (toNumber (inv_amount i))"
  defines "running \<equiv> \<lambda>xs. foldl num_add (Num 0) (map signed xs)"
  shows "(getCorpusAtDate_double d date = Inr corpus \<longrightarrow>
            distinct (map d_clientId (d_clientShares corpus))
          \<and> set (map d_clientId (d_clientShares corpus)) = set (map inv_clientId sel)
          \<and> (\<forall>share \<in> set (d_clientShares corpus).
                d_totalInvestment share
                  = running (filter (\<lambda>i. inv_clientId i = d_clientId share) sel)
              \<and> d_sharePercentage share =
                  (if running sel = Num 0 then Num 0
                   else num_toFixed2
                     (num_mul (num_div (d_totalInvestment share) (running sel)) (Num 100))))
          \<and> d_totalCorpus corpus = (if running sel = NaN then Num 0 else running sel)
          \<and> d_totalCorpus corpus \<noteq> NaN)
      \<and> ((\<forall>i \<in> set (investments d). inv_status i = cancelled) \<longrightarrow>
            getCorpusAtDate_double d date = Inr \<lparr>d_totalCorpus = Num 0, d_clientShares = []\<rparr>)"
proof (intro conjI impI)
  assume "\<forall>i \<in> set (investments d). inv_status i = cancelled"
  then have "selectedInvestments d date = []"
    by (auto simp: selectedInvestments_def filter_empty_conv)
  then show "getCorpusAtDate_double d date = Inr \<lparr>d_totalCorpus = Num 0, d_clientShares = []\<rparr>"
    by (simp add: getCorpusAtDate_double_def)
next
  assume ok: "getCorpusAtDate_double d date = Inr corpus"
  have signed: "signed = signedAmount_double"
    by (rule ext) (simp add: signed_def signedAmount_double_def, metis investmentType.exhaust)
  have sel: "sel = selectedInvestments d date"
    by (simp add: sel_def selectedInvestments_def)
  from ok obtain cs t where
    g: "groupByClient_double (map (populate d) sel) [] (Num 0) = Inr (cs, t)"
    and tc: "d_totalCorpus corpus = (if t = NaN \<or> t = Num 0 then Num 0 else t)"
    and sh: "d_clientShares corpus = map (withSharePercentage_double t) cs"
    unfolding sel by (rule getCorpusAtDate_double_Inr)
  note inv = groupByClient_double_inv[OF g]
  have t: "t = running sel"
    using inv(1) by (simp add: running_def signed comp_def)
  have ids: "map d_clientId (d_clientShares corpus) = map d_clientId cs"
    by (simp add: sh withSharePercentage_double_def comp_def)
  have dist: "distinct (map d_clientId cs)" using inv(4) by simp
  show "distinct (map d_clientId (d_clientShares corpus))" using dist ids by simp
  show "set (map d_clientId (d_clientShares corpus)) = set (map inv_clientId sel)"
    using inv(3) populated_ids[OF inv(5)] ids by simp
  show "d_totalCorpus corpus = (if running sel = NaN then Num 0 else running sel)"
    using tc t by simp
  show "d_totalCorpus corpus \<noteq> NaN"
    using tc by simp
  show "\<forall>share \<in> set (d_clientShares corpus).
                d_totalInvestment share
                  = running (filter (\<lambda>i. inv_clientId i = d_clientId share) sel)
              \<and> d_sharePercentage share =
                  (if running sel = Num 0 then Num 0
                   else num_toFixed2
                     (num_mul (num_div (d_totalInvestment share) (running sel)) (Num 100)))"
  proof
    fix share assume "share \<in> set (d_clientShares corpus)"
    then obtain c where c: "c \<in> set cs" and s: "share = withSharePercentage_double t c"
      using sh by auto
    have f: "d_clientId share = d_clientId c" "d_totalInvestment share = d_totalInvestment c"
      "d_sharePercentage share =
         (if t = Num 0 then Num 0
          else num_toFixed2 (num_mul (num_div (d_totalInvestment c) t) (Num 100)))"
      by (simp_all add: s withSharePercentage_double_def)
    have "totalOf cs (d_clientId c) =
        foldl num_add (Num 0)
          (map signedAmount_double (filter (\<lambda>i. inv_clientId i = d_clientId c) sel))"
      using inv(2)[of "d_clientId c"]
        populated_filter_map[OF inv(5), of signedAmount_double "d_clientId c"]
      by (simp add: totalOf_def)
    then have a: "d_totalInvestment share
        = running (filter (\<lambda>i. inv_clientId i = d_clientId share) sel)"
      using totalOf_distinct[OF dist c] f by (simp add: running_def signed)
    have b: "d_sharePercentage share =
        (if running sel = Num 0 then Num 0
         else num_toFixed2
           (num_mul (num_div (d_totalInvestment share) (running sel)) (Num 100)))"
      using f t by simp
    show "d_totalInvestment share
                  = running (filter (\<lambda>i. inv_clientId i = d_clientId share) sel)
              \<and> d_sharePercentage share =
                  (if running sel = Num 0 then Num 0
                   else num_toFixed2
                     (num_mul (num_div (d_totalInvestment share) (running sel)) (Num 100)))"
      using a b by (rule conjI)
  qed
qed

definition corpusA_double :: corpusData_double where
  "corpusA_double =
     \<lparr>d_totalCorpus = Num 1300,
      d_clientShares =
        [\<lparr>d_clientId = 1, d_clientName = ''Asha'', d_totalInvestment = Num 800,
          d_sharePercentage = toNumber (6154 / 100)\<rparr>,
         \<lparr>d_clientId = 2, d_clientName = ''Ben'', d_totalInvestment = Num 500,
          d_sharePercentage = toNumber (3846 / 100)\<rparr>]\<rparr>"

lemma ledgerA_corpus_double:
  "getCorpusAtDate_double ledgerA (newDate 2024 1 29) = Inr corpusA_double"
  by code_simp

theorem corpus_at_date_double_witness:
  "getCorpusAtDate_double ledgerA (newDate 2024 1 29) = Inr corpusA_double
   \<and> distinct (map d_clientId (d_clientShares corpusA_double))
   \<and> d_totalCorpus corpusA_double \<noteq> NaN
   \<and> getCorpusAtDate_double ledgerCancelled (newDate 2024 1 29)
        = Inr \<lparr>d_totalCorpus = Num 0, d_clientShares = []\<rparr>"
proof -
  note t = corpus_at_date_double[where d = ledgerA and date = "newDate 2024 1 29"
      and corpus = corpusA_double]
  have a: "distinct (map d_clientId (d_clientShares corpusA_double))
      \<and> d_totalCorpus corpusA_double \<noteq> NaN"
    using t[THEN conjunct1, THEN mp, OF ledgerA_corpus_double] by blast
  have "\<forall>i \<in> set (investments ledgerCancelled). inv_status i = cancelled"
    by (simp add: ledgerCancelled_def)
  then have b: "getCorpusAtDate_double ledgerCancelled (newDate 2024 1 29)
        = Inr \<lparr>d_totalCorpus = Num 0, d_clientShares = []\<rparr>"
    by (rule corpus_at_date_double[where d = ledgerCancelled, THEN conjunct2, THEN mp])
  show ?thesis using ledgerA_corpus_double a b by blast
qed

subsection \<open>Investments without a client\<close>

text \<open>
  Claim C7 says that an investment whose client does not exist is skipped with a
  warning and the rest of the ledger is still computed. The code has no such step:
  in \<open>ledgerDangling\<close> the second investment references client 7, who does not exist,
  and the computation ends with the \<open>TypeError\<close> of reading \<open>_id\<close> of \<open>null\<close>.
\<close>

definition ledgerDangling :: db where
  "ledgerDangling =
     \<lparr>users = [\<lparr>user_id = 1, user_name = ''Asha''\<rparr>],
      investments =
        [\<lparr>inv_clientId = 1, inv_amount = 1000, inv_investmentDate = newDate 2024 0 10,
          inv_type = deposit, inv_status = active\<rparr>,
         \<lparr>inv_clientId = 7, inv_amount = 500, inv_investmentDate = newDate 2024 0 12,
          inv_type = deposit, inv_status = active\<rparr>],
      platformInvestments = [],
      monthlyReturns = Map.empty,
      weeklyData = [],
      nextObjectId = 100\<rparr>"

theorem missing_client_fails_counterexample:
  "list_ex (\<lambda>i. \<not> list_ex (\<lambda>u. user_id u = inv_clientId i) (users ledgerDangling))
     (investments ledgerDangling)
   \<and> getCorpusAtDate ledgerDangling (newDate 2024 1 29) = Inl TypeError"
  by code_simp

text \<open>
  Claim C7, amended. The corpus computation returns a result exactly when every
  considered investment (active, dated up to the cutoff) references an existing user;
  otherwise the whole computation fails with a \<open>TypeError\<close>. A dangling reference
  on an investment that is cancelled or dated after the cutoff is never looked at.
\<close>

theorem corpus_result_iff_clients_exist:
  "(if list_all (\<lambda>i. list_ex (\<lambda>u. user_id u = inv_clientId i) (users d))
        (selectedInvestments d date)
    then \<exists>corpus. getCorpusAtDate d date = Inr corpus
    else getCorpusAtDate d date = Inl TypeError)"
proof -
  let ?xs = "map (populate d) (selectedInvestments d date)"
  have eq: "list_all (\<lambda>x. snd x \<noteq> None) ?xs
      \<longleftrightarrow> list_all (\<lambda>i. list_ex (\<lambda>u. user_id u = inv_clientId i) (users d))
           (selectedInvestments d date)"
    by (simp add: list_all_iff populate_found del: not_None_eq)
  show ?thesis
  proof (cases "list_all (\<lambda>x. snd x \<noteq> None) ?xs")
    case True
    then obtain r where "groupByClient ?xs [] 0 = Inr r"
      using groupByClient_total by blast
    then have "\<exists>corpus. getCorpusAtDate d date = Inr corpus"
      by (cases r) (simp add: getCorpusAtDate_def)
    with True eq show ?thesis by simp
  next
    case False
    then obtain e where "groupByClient ?xs [] 0 = Inl e"
      using groupByClient_total groupByClient_inv(6)
      by (metis old.sum.exhaust surj_pair)
    moreover from this have "e = TypeError" using groupByClient_Inl by blast
    ultimately have "getCorpusAtDate d date = Inl TypeError"
      by (simp add: getCorpusAtDate_def)
    with False eq show ?thesis by simp
  qed
qed

theorem corpus_result_iff_clients_exist_witness:
  "(\<exists>corpus. getCorpusAtDate ledgerA (newDate 2024 1 29) = Inr corpus)
   \<and> getCorpusAtDate ledgerDangling (newDate 2024 1 29) = Inl TypeError
   \<and> (\<exists>corpus. getCorpusAtDate ledgerDangling (newDate 2024 0 11) = Inr corpus)"
proof -
  have a: "list_all (\<lambda>i. list_ex (\<lambda>u. user_id u = inv_clientId i) (users ledgerA))
        (selectedInvestments ledgerA (newDate 2024 1 29))"
    by code_simp
  have b: "\<not> list_all (\<lambda>i. list_ex (\<lambda>u. user_id u = inv_clientId i) (users ledgerDangling))
        (selectedInvestments ledgerDangling (newDate 2024 1 29))"
    by code_simp
  have c: "list_all (\<lambda>i. list_ex (\<lambda>u. user_id u = inv_clientId i) (users ledgerDangling))
        (selectedInvestments ledgerDangling (newDate 2024 0 11))"
    by code_simp
  show ?thesis
    using corpus_result_iff_clients_exist[of ledgerA "newDate 2024 1 29"]
      corpus_result_iff_clients_exist[of ledgerDangling "newDate 2024 1 29"]
      corpus_result_iff_clients_exist[of ledgerDangling "newDate 2024 0 11"]
      a b c
    by (simp only: if_True if_False simp_thms)
qed


section \<open>The monthly return calculator\<close>

text \<open>
  The month a calculation writes is fixed by \<open>monthKey\<close>: the start of the month is
  its first millisecond and the end of the month the start of its last day.
  \<open>monthDocument\<close> is the document \<open>calculateMonthlyReturns\<close> hands to the store.
\<close>

definition monthKey :: "jsdate \<Rightarrow> int" where
  "monthKey m = 12 * makeFullYear (getFullYear m) + getMonth m"

lemma startOfMonth_eq: "startOfMonth m = \<lparr>monthIndex = monthKey m, msInMonth = 0\<rparr>"
  by (simp add: startOfMonth_def newDate_def monthKey_def normDate_zero)

lemma endOfMonth_eq:
  "endOfMonth m =
     \<lparr>monthIndex = monthKey m, msInMonth = (daysInMonth (monthKey m) - 1) * msPerDay\<rparr>"
proof -
  have b: "28 \<le> daysInMonth (monthKey m)" by (rule daysInMonth_bounds)
  have "endOfMonth m = normDate (monthKey m + 1) (- msPerDay)"
    by (simp add: endOfMonth_def newDate_def monthKey_def algebra_simps)
  also have "\<dots> = normDate (monthKey m) (- msPerDay + daysInMonth (monthKey m) * msPerDay)"
    by (subst normDate.simps) (simp add: msPerDay_def)
  also have "- msPerDay + daysInMonth (monthKey m) * msPerDay
      = (daysInMonth (monthKey m) - 1) * msPerDay"
    by (simp add: algebra_simps)
  also have "normDate (monthKey m) ((daysInMonth (monthKey m) - 1) * msPerDay)
      = \<lparr>monthIndex = monthKey m, msInMonth = (daysInMonth (monthKey m) - 1) * msPerDay\<rparr>"
    using b by (intro normDate_in_range) (simp_all add: msPerDay_def)
  finally show ?thesis .
qed

lemma monthStartDay_inj: "monthStartDay a = monthStartDay b \<Longrightarrow> a = b"
  using monthStartDay_less[of a b] monthStartDay_less[of b a] by (cases a b rule: linorder_cases) auto

lemma startOfMonth_key:
  "getTime (startOfMonth m) = getTime (startOfMonth m') \<longleftrightarrow> monthKey m = monthKey m'"
  by (auto simp: startOfMonth_eq getTime_def msPerDay_def dest: monthStartDay_inj)

definition monthDocument :: "db \<Rightarrow> jsdate \<Rightarrow> jsdate \<Rightarrow> corpusData \<Rightarrow> monthlyReturn" where
  "monthDocument d clock monthDate corpus =
     (let returns = getPlatformReturns d (startOfMonth monthDate) (endOfMonth monthDate);
          totalReturnPercentage = calculateWeightedReturn returns
      in \<lparr>month = startOfMonth monthDate,
          mr_totalCorpus = totalCorpus corpus,
          totalPlatformValue = totalValue returns,
          monthlyReturnPercentage = totalReturnPercentage,
          clientReturns =
            calculateClientReturns d corpus totalReturnPercentage (endOfMonth monthDate),
          mr_platformReturns = map castPlatformReturn (platforms returns),
          calculatedAt = clock,
          clientReturnIds = [nextObjectId d ..< nextObjectId d + length (clientShares corpus)],
          platformReturnIds =
            [nextObjectId d + length (clientShares corpus)
               ..< nextObjectId d + length (clientShares corpus) + length (platforms returns)],
          createdAt =
            (case monthlyReturns d (getTime (startOfMonth monthDate)) of
               None \<Rightarrow> clock
             | Some stored \<Rightarrow> createdAt stored),
          updatedAt = clock\<rparr>)"

definition idsUsed :: "db \<Rightarrow> jsdate \<Rightarrow> corpusData \<Rightarrow> nat" where
  "idsUsed d monthDate corpus =
     length (clientShares corpus)
       + length (platforms (getPlatformReturns d (startOfMonth monthDate) (endOfMonth monthDate)))"

lemma calculateMonthlyReturns_cases:
  "calculateMonthlyReturns d clock monthDate =
     (case getCorpusAtDate d (endOfMonth monthDate) of
        Inl e \<Rightarrow> Inl e
      | Inr corpus \<Rightarrow>
          Inr (d\<lparr>monthlyReturns := (monthlyReturns d)
                (getTime (startOfMonth monthDate) \<mapsto> monthDocument d clock monthDate corpus),
                nextObjectId := nextObjectId d + idsUsed d monthDate corpus\<rparr>))"
  by (simp add: calculateMonthlyReturns_def monthDocument_def idsUsed_def Let_def
      calculateClientReturns_def split: sum.splits)

lemma calculateMonthlyReturns_Inr:
  assumes "calculateMonthlyReturns d clock monthDate = Inr d'"
  obtains corpus where
    "getCorpusAtDate d (endOfMonth monthDate) = Inr corpus"
    "d' = d\<lparr>monthlyReturns := (monthlyReturns d)
            (getTime (startOfMonth monthDate) \<mapsto> monthDocument d clock monthDate corpus),
            nextObjectId := nextObjectId d + idsUsed d monthDate corpus\<rparr>"
  using assms unfolding calculateMonthlyReturns_cases by (auto split: sum.splits)

lemma calculateClientReturns_fields:
  "map cr_clientId (calculateClientReturns d corpus p date) = map clientId (clientShares corpus)"
  "map investmentShare (calculateClientReturns d corpus p date)
     = map totalInvestment (clientShares corpus)"
  "map cr_sharePercentage (calculateClientReturns d corpus p date)
     = map sharePercentage (clientShares corpus)"
  by (simp_all add: calculateClientReturns_def Let_def comp_def)

lemma calculateClientReturns_formula:
  "cr \<in> set (calculateClientReturns d corpus p date) \<Longrightarrow>
     returnAmount cr = investmentShare cr * p / 100
   \<and> closingBalance cr = investmentShare cr + returnAmount cr"
  by (auto simp: calculateClientReturns_def Let_def)

lemma calculateClientReturns_any_store:
  "calculateClientReturns d corpus p date = calculateClientReturns d' corpus p date"
  by (simp add: calculateClientReturns_def Let_def)

lemma populate_store [simp]: "populate (d\<lparr>monthlyReturns := x\<rparr>) = populate d"
  by (rule ext) (simp add: populate_def)

lemma getCorpusAtDate_store [simp]:
  "getCorpusAtDate (d\<lparr>monthlyReturns := x\<rparr>) date = getCorpusAtDate d date"
  by (simp add: getCorpusAtDate_def selectedInvestments_def)

lemma getPlatformReturns_store [simp]:
  "getPlatformReturns (d\<lparr>monthlyReturns := x\<rparr>) s e = getPlatformReturns d s e"
  by (simp add: getPlatformReturns_def)

lemma populate_ids [simp]: "populate (d\<lparr>nextObjectId := x\<rparr>) = populate d"
  by (rule ext) (simp add: populate_def)

lemma getCorpusAtDate_ids [simp]:
  "getCorpusAtDate (d\<lparr>nextObjectId := x\<rparr>) date = getCorpusAtDate d date"
  by (simp add: getCorpusAtDate_def selectedInvestments_def)

lemma getPlatformReturns_ids [simp]:
  "getPlatformReturns (d\<lparr>nextObjectId := x\<rparr>) s e = getPlatformReturns d s e"
  by (simp add: getPlatformReturns_def)


lemma getCorpusAtDate_conserves:
  assumes "getCorpusAtDate d date = Inr corpus"
  shows "sum_list (map totalInvestment (clientShares corpus)) = totalCorpus corpus"
proof -
  from assms obtain cs t where
    g: "groupByClient (map (populate d) (selectedInvestments d date)) [] 0 = Inr (cs, t)"
    and tc: "totalCorpus corpus = t"
    and sh: "clientShares corpus = map (withSharePercentage t) cs"
    by (rule getCorpusAtDate_Inr)
  have "map totalInvestment (clientShares corpus) = map totalInvestment cs"
    by (simp add: sh withSharePercentage_def comp_def)
  then show ?thesis
    using groupByClient_inv(1)[OF g] groupByClient_inv(2)[OF g] tc by simp
qed

subsection \<open>A ledger with one platform\<close>

text \<open>
  Two clients and one platform that reports 10 percent. At the end of February 2024 the
  first client holds 800 and the second 500.
\<close>

definition ledgerP :: db where
  "ledgerP =
     \<lparr>users = [\<lparr>user_id = 1, user_name = ''Asha''\<rparr>, \<lparr>user_id = 2, user_name = ''Ben''\<rparr>],
      investments =
        [\<lparr>inv_clientId = 1, inv_amount = 1000, inv_investmentDate = newDate 2024 0 10,
          inv_type = deposit, inv_status = active\<rparr>,
         \<lparr>inv_clientId = 2, inv_amount = 500, inv_investmentDate = newDate 2024 1 5,
          inv_type = deposit, inv_status = active\<rparr>,
         \<lparr>inv_clientId = 1, inv_amount = 200, inv_investmentDate = newDate 2024 1 20,
          inv_type = withdrawal, inv_status = active\<rparr>],
      platformInvestments =
        [\<lparr>pl_id = 1, pl_platformName = ''Alpha'', pl_amount = 1000,
          pl_investmentDate = newDate 2024 0 12, pl_returnPercentage = Some 10,
          pl_currentValue = 1100, pl_status = platform_active\<rparr>],
      monthlyReturns = Map.empty,
      weeklyData = [],
      nextObjectId = 100\<rparr>"


lemma ledgerP_february_returns:
  "(case calculateMonthlyReturns ledgerP (newDate 2024 2 1) (newDate 2024 1 15) of
      Inl e \<Rightarrow> False | Inr d' \<Rightarrow> True)"
  by code_simp

lemma ledgerP_february_values:
  "(case calculateMonthlyReturns ledgerP (newDate 2024 2 1) (newDate 2024 1 15) of
      Inl e \<Rightarrow> None
    | Inr d' \<Rightarrow>
        map_option (\<lambda>sn. (mr_totalCorpus sn, monthlyReturnPercentage sn,
            map investmentShare (clientReturns sn), map returnAmount (clientReturns sn),
            map closingBalance (clientReturns sn)))
          (monthlyReturns d' (getTime (startOfMonth (newDate 2024 1 15)))))
   = Some (1300, 10, [800, 500], [80, 50], [880, 550])"
  by code_simp

text \<open>
  Claim C4. For every month and every client share of the resolved corpus, the stored
  client return has \<open>returnAmount = investmentShare * returnPct / 100\<close> and
  \<open>closingBalance = investmentShare + returnAmount\<close>, where \<open>investmentShare\<close> is the
  client's \<open>totalInvestment\<close> of the corpus at the end of that month and \<open>returnPct\<close>
  the weighted platform return. The prior month's closing balance plays no part:
  whatever monthly documents are stored beforehand, the client returns are the same.
\<close>

theorem client_returns_from_current_share:
  assumes "calculateMonthlyReturns d clock monthDate = Inr d'"
  shows "\<exists>corpus sn.
      getCorpusAtDate d (endOfMonth monthDate) = Inr corpus
    \<and> monthlyReturns d' (getTime (startOfMonth monthDate)) = Some sn
    \<and> monthlyReturnPercentage sn =
        calculateWeightedReturn
          (getPlatformReturns d (startOfMonth monthDate) (endOfMonth monthDate))
    \<and> map cr_clientId (clientReturns sn) = map clientId (clientShares corpus)
    \<and> map investmentShare (clientReturns sn) = map totalInvestment (clientShares corpus)
    \<and> (\<forall>cr \<in> set (clientReturns sn).
          returnAmount cr = investmentShare cr * monthlyReturnPercentage sn / 100
        \<and> closingBalance cr = investmentShare cr + returnAmount cr)
    \<and> (\<forall>stored. \<exists>e sn'.
          calculateMonthlyReturns (d\<lparr>monthlyReturns := stored\<rparr>) clock monthDate = Inr e
        \<and> monthlyReturns e (getTime (startOfMonth monthDate)) = Some sn'
        \<and> clientReturns sn' = clientReturns sn)"
proof -
  from assms obtain corpus where
    c: "getCorpusAtDate d (endOfMonth monthDate) = Inr corpus"
    and d': "d' = d\<lparr>monthlyReturns := (monthlyReturns d)
            (getTime (startOfMonth monthDate) \<mapsto> monthDocument d clock monthDate corpus),
            nextObjectId := nextObjectId d + idsUsed d monthDate corpus\<rparr>"
    by (rule calculateMonthlyReturns_Inr)
  let ?sn = "monthDocument d clock monthDate corpus"
  have sn: "monthlyReturns d' (getTime (startOfMonth monthDate)) = Some ?sn"
    by (simp add: d')
  have pct: "monthlyReturnPercentage ?sn =
        calculateWeightedReturn
          (getPlatformReturns d (startOfMonth monthDate) (endOfMonth monthDate))"
    by (simp add: monthDocument_def Let_def)
  have crs: "clientReturns ?sn =
      calculateClientReturns d corpus (monthlyReturnPercentage ?sn) (endOfMonth monthDate)"
    by (simp add: monthDocument_def Let_def)
  have ids: "map cr_clientId (clientReturns ?sn) = map clientId (clientShares corpus)"
    and shares: "map investmentShare (clientReturns ?sn) = map totalInvestment (clientShares corpus)"
    unfolding crs by (rule calculateClientReturns_fields)+
  have formula: "\<forall>cr \<in> set (clientReturns ?sn).
          returnAmount cr = investmentShare cr * monthlyReturnPercentage ?sn / 100
        \<and> closingBalance cr = investmentShare cr + returnAmount cr"
    unfolding crs using calculateClientReturns_formula by blast
  have indep: "\<forall>stored. \<exists>e sn'.
          calculateMonthlyReturns (d\<lparr>monthlyReturns := stored\<rparr>) clock monthDate = Inr e
        \<and> monthlyReturns e (getTime (startOfMonth monthDate)) = Some sn'
        \<and> clientReturns sn' = clientReturns ?sn"
  proof
    fix stored
    let ?d2 = "d\<lparr>monthlyReturns := stored\<rparr>"
    have "calculateMonthlyReturns ?d2 clock monthDate =
        Inr (?d2\<lparr>monthlyReturns := (monthlyReturns ?d2)
            (getTime (startOfMonth monthDate) \<mapsto> monthDocument ?d2 clock monthDate corpus),
            nextObjectId := nextObjectId ?d2 + idsUsed ?d2 monthDate corpus\<rparr>)"
      by (simp add: calculateMonthlyReturns_cases c)
    moreover have "clientReturns (monthDocument ?d2 clock monthDate corpus) = clientReturns ?sn"
      by (simp add: monthDocument_def Let_def
          calculateClientReturns_any_store[of ?d2 _ _ _ d])
    ultimately show "\<exists>e sn'.
          calculateMonthlyReturns ?d2 clock monthDate = Inr e
        \<and> monthlyReturns e (getTime (startOfMonth monthDate)) = Some sn'
        \<and> clientReturns sn' = clientReturns ?sn"
      by simp
  qed
  show ?thesis
    using c sn pct ids shares formula indep by blast
qed

theorem client_returns_from_current_share_witness:
  "(case calculateMonthlyReturns ledgerP (newDate 2024 2 1) (newDate 2024 1 15) of
      Inl e \<Rightarrow> False
    | Inr d' \<Rightarrow>
        (case monthlyReturns d' (getTime (startOfMonth (newDate 2024 1 15))) of
           None \<Rightarrow> False
         | Some sn \<Rightarrow>
             list_all (\<lambda>cr.
                 returnAmount cr = investmentShare cr * monthlyReturnPercentage sn / 100
               \<and> closingBalance cr = investmentShare cr + returnAmount cr) (clientReturns sn)))"
proof -
  obtain d' where e: "calculateMonthlyReturns ledgerP (newDate 2024 2 1) (newDate 2024 1 15) = Inr d'"
    using ledgerP_february_returns by (auto split: sum.splits)
  from client_returns_from_current_share[OF e] obtain sn where
    "monthlyReturns d' (getTime (startOfMonth (newDate 2024 1 15))) = Some sn"
    "\<forall>cr \<in> set (clientReturns sn).
          returnAmount cr = investmentShare cr * monthlyReturnPercentage sn / 100
        \<and> closingBalance cr = investmentShare cr + returnAmount cr"
    by blast
  then show ?thesis by (simp add: e list_all_iff)
qed

text \<open>
  Claim C6 (conservation). In the snapshot a monthly calculation stores, the investment
  shares of the client returns add up to the snapshot's \<open>totalCorpus\<close>.
\<close>

theorem investment_shares_sum_to_corpus:
  assumes "calculateMonthlyReturns d clock monthDate = Inr d'"
  shows "\<exists>sn. monthlyReturns d' (getTime (startOfMonth monthDate)) = Some sn
    \<and> sum_list (map investmentShare (clientReturns sn)) = mr_totalCorpus sn"
proof -
  from assms obtain corpus where
    c: "getCorpusAtDate d (endOfMonth monthDate) = Inr corpus"
    and d': "d' = d\<lparr>monthlyReturns := (monthlyReturns d)
            (getTime (startOfMonth monthDate) \<mapsto> monthDocument d clock monthDate corpus),
            nextObjectId := nextObjectId d + idsUsed d monthDate corpus\<rparr>"
    by (rule calculateMonthlyReturns_Inr)
  let ?sn = "monthDocument d clock monthDate corpus"
  have "map investmentShare (clientReturns ?sn) = map totalInvestment (clientShares corpus)"
    by (simp add: monthDocument_def Let_def calculateClientReturns_fields)
  moreover have "mr_totalCorpus ?sn = totalCorpus corpus"
    by (simp add: monthDocument_def Let_def)
  ultimately have "sum_list (map investmentShare (clientReturns ?sn)) = mr_totalCorpus ?sn"
    using getCorpusAtDate_conserves[OF c] by simp
  then show ?thesis by (simp add: d')
qed


theorem investment_shares_sum_to_corpus_witness:
  "(case calculateMonthlyReturns ledgerP (newDate 2024 2 1) (newDate 2024 1 15) of
      Inl e \<Rightarrow> False
    | Inr d' \<Rightarrow>
        (case monthlyReturns d' (getTime (startOfMonth (newDate 2024 1 15))) of
           None \<Rightarrow> False
         | Some sn \<Rightarrow>
             sum_list (map investmentShare (clientReturns sn)) = mr_totalCorpus sn))"
proof -
  obtain d' where e: "calculateMonthlyReturns ledgerP (newDate 2024 2 1) (newDate 2024 1 15) = Inr d'"
    using ledgerP_february_returns by (auto split: sum.splits)
  from investment_shares_sum_to_corpus[OF e] obtain sn where
    "monthlyReturns d' (getTime (startOfMonth (newDate 2024 1 15))) = Some sn"
    "sum_list (map investmentShare (clientReturns sn)) = mr_totalCorpus sn"
    by blast
  then show ?thesis by (simp add: e)
qed

text \<open>
  Claim C8 says that a return percentage supplied to the single-month entry point is
  the one stored. The route that derives the percentage from the weekly data passes it
  as a second argument, but the function takes the month alone: with 5 supplied for
  February 2024 on \<open>ledgerP\<close>, the stored percentage is the 10 derived from the
  platform.
\<close>

theorem supplied_percentage_is_ignored:
  "(case calculateMonthlyReturns_call ledgerP (newDate 2024 2 1) (newDate 2024 1 15) (Some 5) of
      Inl e \<Rightarrow> None
    | Inr d' \<Rightarrow>
        map_option monthlyReturnPercentage
          (monthlyReturns d' (getTime (startOfMonth (newDate 2024 1 15)))))
   = Some 10"
  by code_simp


section \<open>The recalculation cascade\<close>

text \<open>
  The loop of \<open>getMonthsFromDate\<close> starts at the first of a month and moves one month
  at a time, so it lists the first of every month up to the month of \<open>now\<close>.
  A run of \<open>forMonths\<close> that ends without an exception is a chain of monthly
  calculations, each on the store the one before left.
\<close>

definition firstOfMonth :: "int \<Rightarrow> jsdate" where
  "firstOfMonth k = \<lparr>monthIndex = k, msInMonth = 0\<rparr>"

lemma setMonth_firstOfMonth:
  "setMonth (firstOfMonth c) (getMonth (firstOfMonth c) + 1) = firstOfMonth (c + 1)"
proof -
  have "12 * getFullYear (firstOfMonth c) + (getMonth (firstOfMonth c) + 1) = c + 1"
    by (simp add: getFullYear_def getMonth_def firstOfMonth_def)
  then show ?thesis
    by (simp add: setMonth_def firstOfMonth_def normDate_zero)
qed

lemma monthsLoop_upto:
  assumes "validDate now"
  shows "monthsLoop now (firstOfMonth c) = map firstOfMonth [c..monthIndex now]"
proof (induction "nat (monthIndex now + 1 - c)" arbitrary: c)
  case 0
  then have "\<not> c \<le> monthIndex now" by simp
  then have "\<not> date_le (firstOfMonth c) now"
    using month_start_le[OF assms, of c] by (simp add: date_le_def firstOfMonth_def)
  then show ?case using \<open>\<not> c \<le> monthIndex now\<close>
    by (subst monthsLoop.simps) simp
next
  case (Suc n)
  then have le: "c \<le> monthIndex now" by simp
  then have "date_le (firstOfMonth c) now"
    using month_start_le[OF assms, of c] by (simp add: date_le_def firstOfMonth_def)
  moreover have "monthsLoop now (firstOfMonth (c + 1)) = map firstOfMonth [c + 1..monthIndex now]"
    using Suc by (intro Suc(1)) simp
  ultimately show ?case using le
    by (subst monthsLoop.simps) (simp add: setMonth_firstOfMonth upto_rec1[of c])
qed

lemma startOfMonth_first: "startOfMonth m = firstOfMonth (monthIndex (startOfMonth m))"
  by (simp add: startOfMonth_eq firstOfMonth_def)

lemma monthIndex_mono:
  assumes "validDate a" "validDate b" "getTime a \<le> getTime b"
  shows "monthIndex a \<le> monthIndex b"
proof (rule ccontr)
  assume "\<not> monthIndex a \<le> monthIndex b"
  then have "monthStartDay (monthIndex b + 1) \<le> monthStartDay (monthIndex a)"
    by (simp add: monthStartDay_mono)
  then have "(monthStartDay (monthIndex b) + daysInMonth (monthIndex b)) * msPerDay
      \<le> monthStartDay (monthIndex a) * msPerDay"
    by (simp add: monthStartDay_step msPerDay_def)
  with assms show False by (simp add: getTime_def validDate_def algebra_simps)
qed

lemma forMonths_trace:
  "forMonths clock n months d = (d', None) \<Longrightarrow>
   \<exists>ds. length ds = length months + 1 \<and> ds ! 0 = d \<and> ds ! length months = d'
     \<and> (\<forall>i < length months.
           calculateMonthlyReturns (ds ! i) (clock (n + i)) (months ! i) = Inr (ds ! (i + 1)))"
proof (induction months arbitrary: n d)
  case Nil
  then show ?case by (intro exI[of _ "[d]"]) simp
next
  case (Cons m months)
  from Cons.prems obtain d1 where
    s: "calculateMonthlyReturns d (clock n) m = Inr d1"
    and r: "forMonths clock (Suc n) months d1 = (d', None)"
    by (auto split: sum.splits)
  from Cons.IH[OF r] obtain ds where ds:
    "length ds = length months + 1" "ds ! 0 = d1" "ds ! length months = d'"
    "\<forall>i < length months.
       calculateMonthlyReturns (ds ! i) (clock (Suc n + i)) (months ! i) = Inr (ds ! (i + 1))"
    by blast
  have "\<forall>i < length (m # months).
      calculateMonthlyReturns ((d # ds) ! i) (clock (n + i)) ((m # months) ! i)
        = Inr ((d # ds) ! (i + 1))"
  proof (intro allI impI)
    fix i assume "i < length (m # months)"
    then show "calculateMonthlyReturns ((d # ds) ! i) (clock (n + i)) ((m # months) ! i)
        = Inr ((d # ds) ! (i + 1))"
      using s ds(2) ds(4) by (cases i) auto
  qed
  then show ?case using ds(1) ds(3)
    by (intro exI[of _ "d # ds"]) simp
qed

text \<open>
  What the cascade enumerates. \<open>getMonthsFromDate\<close> lists the first of every calendar
  month from the start the code builds, \<open>new Date(fromDate.getFullYear(),
  fromDate.getMonth(), 1)\<close>, through the first of the month of the current time, in
  ascending order. When \<open>fromDate\<close> is not later than now and its year lies outside the
  two-digit range of the \<open>Date\<close> constructor, that is every month from the month of
  \<open>fromDate\<close> to the current one. A run that returns has invoked the monthly
  calculation once for each enumerated month, in that order, each on the store left by
  the one before, and returns their number as \<open>monthsRecalculated\<close>.
\<close>

theorem recalculation_enumerates_months:
  assumes "validDate (clock 0)"
  shows "getMonthsFromDate (clock 0) fromDate
        = map (\<lambda>k. \<lparr>monthIndex = k, msInMonth = 0\<rparr>)
            [monthIndex (startOfMonth fromDate)..monthIndex (clock 0)]
    \<and> startOfMonth fromDate =
        \<lparr>monthIndex = 12 * makeFullYear (getFullYear fromDate) + getMonth fromDate,
         msInMonth = 0\<rparr>
    \<and> (validDate fromDate \<and> date_le fromDate (clock 0)
         \<and> \<not> (0 \<le> getFullYear fromDate \<and> getFullYear fromDate \<le> 99) \<longrightarrow>
          monthIndex (startOfMonth fromDate) = monthIndex fromDate
        \<and> monthIndex fromDate \<le> monthIndex (clock 0)
        \<and> length (getMonthsFromDate (clock 0) fromDate)
            = nat (monthIndex (clock 0) - monthIndex fromDate + 1))
    \<and> (\<forall>d' r. recalculateFromDate d clock fromDate = (d', Inr r) \<longrightarrow>
          success r
        \<and> monthsRecalculated r = length (getMonthsFromDate (clock 0) fromDate)
        \<and> (\<exists>ds. length ds = length (getMonthsFromDate (clock 0) fromDate) + 1
              \<and> ds ! 0 = d
              \<and> ds ! length (getMonthsFromDate (clock 0) fromDate) = d'
              \<and> (\<forall>i < length (getMonthsFromDate (clock 0) fromDate).
                    calculateMonthlyReturns (ds ! i) (clock (i + 1))
                      (getMonthsFromDate (clock 0) fromDate ! i) = Inr (ds ! (i + 1)))))"
proof (intro conjI allI impI)
  have fm: "firstOfMonth = (\<lambda>k. \<lparr>monthIndex = k, msInMonth = 0\<rparr>)"
    by (rule ext) (simp add: firstOfMonth_def)
  show months: "getMonthsFromDate (clock 0) fromDate
        = map (\<lambda>k. \<lparr>monthIndex = k, msInMonth = 0\<rparr>)
            [monthIndex (startOfMonth fromDate)..monthIndex (clock 0)]"
  proof -
    define k where "k = monthIndex (startOfMonth fromDate)"
    have "startOfMonth fromDate = firstOfMonth k"
      unfolding k_def by (rule startOfMonth_first)
    then have "getMonthsFromDate (clock 0) fromDate = map firstOfMonth [k..monthIndex (clock 0)]"
      by (simp add: getMonthsFromDate_def monthsLoop_upto[OF assms])
    then show ?thesis by (simp add: fm k_def)
  qed
  show "startOfMonth fromDate =
        \<lparr>monthIndex = 12 * makeFullYear (getFullYear fromDate) + getMonth fromDate,
         msInMonth = 0\<rparr>"
    by (simp add: startOfMonth_eq monthKey_def)
  {
    assume h: "validDate fromDate \<and> date_le fromDate (clock 0)
         \<and> \<not> (0 \<le> getFullYear fromDate \<and> getFullYear fromDate \<le> 99)"
    then have "makeFullYear (getFullYear fromDate) = getFullYear fromDate"
      by (auto simp: makeFullYear_def)
    then show a: "monthIndex (startOfMonth fromDate) = monthIndex fromDate"
      by (simp add: startOfMonth_eq monthKey_def getFullYear_def getMonth_def)
    show b: "monthIndex fromDate \<le> monthIndex (clock 0)"
      using h assms by (intro monthIndex_mono) (simp_all add: date_le_def)
    show "length (getMonthsFromDate (clock 0) fromDate)
            = nat (monthIndex (clock 0) - monthIndex fromDate + 1)"
      using a by (simp add: months)
  }
  {
    fix d' r
    assume run: "recalculateFromDate d clock fromDate = (d', Inr r)"
    let ?months = "getMonthsFromDate (clock 0) fromDate"
    from run have f: "forMonths clock 1 ?months d = (d', None)"
      and r: "r = \<lparr>success = True, monthsRecalculated = length ?months\<rparr>"
      by (auto simp: recalculateFromDate_def Let_def split: prod.splits option.splits)
    show "success r" using r by simp
    show "monthsRecalculated r = length ?months" using r by simp
    show "\<exists>ds. length ds = length ?months + 1
              \<and> ds ! 0 = d
              \<and> ds ! length ?months = d'
              \<and> (\<forall>i < length ?months.
                    calculateMonthlyReturns (ds ! i) (clock (i + 1))
                      (?months ! i) = Inr (ds ! (i + 1)))"
      using forMonths_trace[OF f] by simp
  }
qed


theorem recalculation_enumerates_months_witness:
  "validDate (newDate 2024 2 10)
   \<and> getMonthsFromDate (newDate 2024 2 10) (newDate 2024 0 20)
       = [\<lparr>monthIndex = 24288, msInMonth = 0\<rparr>, \<lparr>monthIndex = 24289, msInMonth = 0\<rparr>,
          \<lparr>monthIndex = 24290, msInMonth = 0\<rparr>]
   \<and> (case recalculateFromDate ledgerP (\<lambda>n. newDate 2024 2 10) (newDate 2024 0 20) of
         (d', Inl e) \<Rightarrow> False
       | (d', Inr r) \<Rightarrow> monthsRecalculated r = 3)"
proof -
  have v: "validDate ((\<lambda>n::nat. newDate 2024 2 10) 0)"
    by (simp add: newDate_def validDate_normDate)
  note t = recalculation_enumerates_months[where clock = "\<lambda>n. newDate 2024 2 10"
      and fromDate = "newDate 2024 0 20" and d = ledgerP, OF v]
  have e: "map (\<lambda>k. \<lparr>monthIndex = k, msInMonth = 0\<rparr>)
            [monthIndex (startOfMonth (newDate 2024 0 20))..monthIndex (newDate 2024 2 10)]
       = [\<lparr>monthIndex = 24288, msInMonth = 0\<rparr>, \<lparr>monthIndex = 24289, msInMonth = 0\<rparr>,
          \<lparr>monthIndex = 24290, msInMonth = 0\<rparr>]"
    by code_simp
  have months: "getMonthsFromDate (newDate 2024 2 10) (newDate 2024 0 20)
       = [\<lparr>monthIndex = 24288, msInMonth = 0\<rparr>, \<lparr>monthIndex = 24289, msInMonth = 0\<rparr>,
          \<lparr>monthIndex = 24290, msInMonth = 0\<rparr>]"
    using t[THEN conjunct1] e by simp
  have "(case recalculateFromDate ledgerP (\<lambda>n. newDate 2024 2 10) (newDate 2024 0 20) of
         (d', Inl e) \<Rightarrow> False | (d', Inr r) \<Rightarrow> True)"
    by code_simp
  then obtain d' r where
    run: "recalculateFromDate ledgerP (\<lambda>n. newDate 2024 2 10) (newDate 2024 0 20) = (d', Inr r)"
    by (auto split: prod.splits sum.splits)
  have "monthsRecalculated r = length (getMonthsFromDate (newDate 2024 2 10) (newDate 2024 0 20))"
    using t[THEN conjunct2, THEN conjunct2, THEN conjunct2] run by blast
  then have "monthsRecalculated r = 3" by (simp add: months)
  then show ?thesis using v months run by simp
qed

text \<open>
  A store in which every investment has its client never makes a monthly calculation
  throw, so a cascade over it returns.
\<close>

lemma calculateMonthlyReturns_total:
  assumes "\<forall>i \<in> set (investments d). list_ex (\<lambda>u. user_id u = inv_clientId i) (users d)"
  shows "\<exists>d'. calculateMonthlyReturns d c m = Inr d' \<and> users d' = users d
    \<and> investments d' = investments d"
proof -
  let ?xs = "map (populate d) (selectedInvestments d (endOfMonth m))"
  have "list_all (\<lambda>x. snd x \<noteq> None) ?xs"
    using assms by (simp add: list_all_iff populate_found selectedInvestments_def del: not_None_eq)
  then obtain r where "groupByClient ?xs [] 0 = Inr r"
    using groupByClient_total by blast
  then obtain corpus where "getCorpusAtDate d (endOfMonth m) = Inr corpus"
    by (cases r) (simp add: getCorpusAtDate_def)
  then show ?thesis by (simp add: calculateMonthlyReturns_cases)
qed

lemma forMonths_total:
  assumes "\<forall>i \<in> set (investments d). list_ex (\<lambda>u. user_id u = inv_clientId i) (users d)"
  shows "\<exists>d'. forMonths clock n ms d = (d', None)"
  using assms
proof (induction ms arbitrary: n d)
  case Nil
  then show ?case by simp
next
  case (Cons a ms)
  from calculateMonthlyReturns_total[OF Cons.prems, of "clock n" a] obtain d1 where
    s: "calculateMonthlyReturns d (clock n) a = Inr d1" "users d1 = users d"
      "investments d1 = investments d" by blast
  then have "\<forall>i \<in> set (investments d1). list_ex (\<lambda>u. user_id u = inv_clientId i) (users d1)"
    using Cons.prems by simp
  from Cons.IH[OF this, of "Suc n"] show ?case by (simp add: s(1))
qed

text \<open>
  Claim C2 says that for every \<open>fromDate\<close> not later than now the recalculation
  enumerates the months from the first of the month of \<open>fromDate\<close>. The code builds
  that start with \<open>new Date(fromDate.getFullYear(), fromDate.getMonth(), 1)\<close>, and the
  constructor reads a year from 0 to 99 as 1900 + year. For the first of January of the
  year 50, recalculated on 10 March 2024 over \<open>ledgerP\<close>, the enumeration starts at
  January 1950: the run returns \<open>monthsRecalculated = 891\<close> and has calculated no month
  before 1950, where the months from January of the year 50 are 23691.
\<close>

theorem two_digit_year_starts_in_1900s:
  "getFullYear \<lparr>monthIndex = 600, msInMonth = 0\<rparr> = 50
   \<and> getMonth \<lparr>monthIndex = 600, msInMonth = 0\<rparr> = 0
   \<and> date_le \<lparr>monthIndex = 600, msInMonth = 0\<rparr> (newDate 2024 2 10)
   \<and> getMonthsFromDate (newDate 2024 2 10) \<lparr>monthIndex = 600, msInMonth = 0\<rparr>
       = map (\<lambda>k. \<lparr>monthIndex = k, msInMonth = 0\<rparr>) [23400..24290]
   \<and> length (getMonthsFromDate (newDate 2024 2 10) \<lparr>monthIndex = 600, msInMonth = 0\<rparr>) = 891
   \<and> getFullYear (hd (getMonthsFromDate (newDate 2024 2 10) \<lparr>monthIndex = 600, msInMonth = 0\<rparr>))
       = 1950
   \<and> monthIndex (newDate 2024 2 10) - monthIndex \<lparr>monthIndex = 600, msInMonth = 0\<rparr> + 1 = 23691
   \<and> (case recalculateFromDate ledgerP (\<lambda>n. newDate 2024 2 10) \<lparr>monthIndex = 600, msInMonth = 0\<rparr> of
         (d', Inl e) \<Rightarrow> False
       | (d', Inr r) \<Rightarrow> monthsRecalculated r = 891)"
proof -
  let ?fd = "\<lparr>monthIndex = 600, msInMonth = 0\<rparr>"
  let ?now = "newDate 2024 2 10"
  have v: "validDate ?now" by (simp add: newDate_def validDate_normDate)
  have now: "monthIndex ?now = 24290" by code_simp
  have y: "getFullYear ?fd = 50" "getMonth ?fd = 0"
    by (simp_all add: getFullYear_def getMonth_def)
  have le: "date_le ?fd ?now" by code_simp
  have "startOfMonth ?fd = firstOfMonth 23400"
    by (simp add: startOfMonth_eq monthKey_def y makeFullYear_def firstOfMonth_def)
  then have "getMonthsFromDate ?now ?fd = map firstOfMonth [23400..24290]"
    by (simp add: getMonthsFromDate_def monthsLoop_upto[OF v] now)
  moreover have "firstOfMonth = (\<lambda>k. \<lparr>monthIndex = k, msInMonth = 0\<rparr>)"
    by (rule ext) (simp add: firstOfMonth_def)
  ultimately have months: "getMonthsFromDate ?now ?fd
      = map (\<lambda>k. \<lparr>monthIndex = k, msInMonth = 0\<rparr>) [23400..24290]"
    by simp
  have len: "length (getMonthsFromDate ?now ?fd) = 891"
    by (simp add: months)
  have "[23400..24290::int] = 23400 # [23401..24290]"
    by (subst upto_rec1) simp_all
  then have hd: "getFullYear (hd (getMonthsFromDate ?now ?fd)) = 1950"
    by (simp add: months getFullYear_def)
  have count: "monthIndex ?now - monthIndex ?fd + 1 = 23691"
    by (simp add: now)
  have "\<forall>i \<in> set (investments ledgerP). list_ex (\<lambda>u. user_id u = inv_clientId i) (users ledgerP)"
    by (simp add: ledgerP_def)
  from forMonths_total[OF this, of "\<lambda>n. ?now" 1 "getMonthsFromDate ?now ?fd"] obtain d' where
    "forMonths (\<lambda>n. ?now) 1 (getMonthsFromDate ?now ?fd) ledgerP = (d', None)" by blast
  then have run: "(case recalculateFromDate ledgerP (\<lambda>n. ?now) ?fd of
         (d', Inl e) \<Rightarrow> False
       | (d', Inr r) \<Rightarrow> monthsRecalculated r = 891)"
    by (simp add: recalculateFromDate_def Let_def len)
  show ?thesis using y le months len hd count run by (intro conjI)
qed


section \<open>What a recalculation stores\<close>

text \<open>
  \<open>snapshotFields\<close> are the fields of a monthly document that the calculator
  computes: all but \<open>calculatedAt\<close> and what the store adds (timestamps and entry
  identifiers). The grouping of the ledger reads of a user only the identifier, so
  two computations over the same investments that both find every client agree on the
  identifiers, totals and percentages of the shares (\<open>corpusView\<close>).
  \<open>monthFields d m\<close> are the fields a calculation of month \<open>m\<close> stores on the ledger
  and platforms of \<open>d\<close>; they are the same for two dates of one month. A cascade leaves
  at every month it calculated these fields, and every other document as it was.
\<close>

definition snapshotFields ::
  "monthlyReturn \<Rightarrow> jsdate \<times> rat \<times> rat \<times> rat \<times> clientReturn list \<times> platformReturn list" where
  "snapshotFields sn =
     (month sn, mr_totalCorpus sn, totalPlatformValue sn, monthlyReturnPercentage sn,
      clientReturns sn, mr_platformReturns sn)"

definition shareView :: "clientInvestment \<Rightarrow> nat \<times> rat" where
  "shareView c = (clientId c, totalInvestment c)"

lemma list_ex_view:
  assumes "map shareView cs = map shareView ds"
  shows "list_ex (\<lambda>c. clientId c = k) cs = list_ex (\<lambda>c. clientId c = k) ds"
proof -
  have "map clientId cs = map (fst \<circ> shareView) cs" "map clientId ds = map (fst \<circ> shareView) ds"
    by (simp_all add: shareView_def comp_def)
  then have "map clientId cs = map clientId ds"
    using assms by (metis map_map)
  then have "set (map clientId cs) = set (map clientId ds)" by simp
  then show ?thesis by (auto simp: list_ex_iff image_iff) (metis imageE imageI)+
qed

lemma addToClient_view:
  assumes "map shareView cs = map shareView ds"
  shows "map shareView (addToClient k a cs) = map shareView (addToClient k a ds)"
proof -
  have "length cs = length ds" using assms by (rule map_eq_imp_length_eq)
  then show ?thesis using assms
    by (induction cs ds rule: list_induct2) (auto simp: shareView_def)
qed

lemma groupByClient_view:
  assumes "list_all2 (\<lambda>x y. fst x = fst y \<and> map_option user_id (snd x) = map_option user_id (snd y)) xs ys"
    and "map shareView cs = map shareView ds"
  shows "rel_sum (=) (\<lambda>r s. map shareView (fst r) = map shareView (fst s) \<and> snd r = snd s)
           (groupByClient xs cs t) (groupByClient ys ds t)"
  using assms
proof (induction xs ys arbitrary: cs ds t rule: list_all2_induct)
  case Nil
  then show ?case by simp
next
  case (Cons x xs y ys)
  obtain i ux where x: "x = (i, ux)" by (cases x)
  obtain j uy where y: "y = (j, uy)" by (cases y)
  from Cons(1) x y have ij: "j = i" and uid: "map_option user_id ux = map_option user_id uy"
    by simp_all
  show ?case
  proof (cases ux)
    case None
    with uid have "uy = None" by simp
    with None x y show ?thesis by simp
  next
    case (Some u)
    with uid obtain v where v: "uy = Some v" "user_id v = user_id u" by (cases uy) auto
    define cid where "cid = user_id u"
    define e1 where "e1 = (if list_ex (\<lambda>c. clientId c = cid) cs then cs
             else cs @ [\<lparr>clientId = cid, clientName = user_name u, totalInvestment = 0\<rparr>])"
    define e2 where "e2 = (if list_ex (\<lambda>c. clientId c = cid) ds then ds
             else ds @ [\<lparr>clientId = cid, clientName = user_name v, totalInvestment = 0\<rparr>])"
    have new: "shareView \<lparr>clientId = cid, clientName = user_name u, totalInvestment = 0\<rparr>
        = shareView \<lparr>clientId = cid, clientName = user_name v, totalInvestment = 0\<rparr>"
      by (simp add: shareView_def)
    have "map shareView e1 = map shareView e2"
      unfolding e1_def e2_def list_ex_view[OF Cons.prems, of cid]
      using Cons.prems new by simp
    then have a: "map shareView (addToClient cid (signedAmount i) e1)
        = map shareView (addToClient cid (signedAmount i) e2)"
      by (rule addToClient_view)
    have s1: "groupByClient (x # xs) cs t
        = groupByClient xs (addToClient cid (signedAmount i) e1) (t + signedAmount i)"
      by (simp add: x Some Let_def cid_def e1_def)
    have s2: "groupByClient (y # ys) ds t
        = groupByClient ys (addToClient cid (signedAmount i) e2) (t + signedAmount i)"
      by (simp add: y ij v Let_def cid_def e2_def)
    show ?thesis unfolding s1 s2 by (rule Cons.IH[OF a])
  qed
qed


definition corpusView :: "corpusData \<Rightarrow> rat \<times> (nat \<times> rat \<times> rat) list" where
  "corpusView corpus =
     (totalCorpus corpus,
      map (\<lambda>s. (clientId s, totalInvestment s, sharePercentage s)) (clientShares corpus))"

lemma populated_related:
  assumes "list_all (\<lambda>x. snd x \<noteq> None) (map (populate d1) xs)"
    and "list_all (\<lambda>x. snd x \<noteq> None) (map (populate d2) xs)"
  shows "list_all2 (\<lambda>x y. fst x = fst y \<and> map_option user_id (snd x) = map_option user_id (snd y))
           (map (populate d1) xs) (map (populate d2) xs)"
  using assms
proof (induction xs)
  case Nil
  then show ?case by simp
next
  case (Cons i xs)
  from Cons.prems obtain u v where
    "snd (populate d1 i) = Some u" "snd (populate d2 i) = Some v" by auto
  moreover from this have "user_id u = inv_clientId i" "user_id v = inv_clientId i"
    by (auto dest: populate_Some)
  ultimately show ?case using Cons by simp
qed

lemma getCorpusAtDate_view:
  assumes inv: "investments d1 = investments d2"
    and c1: "getCorpusAtDate d1 date = Inr corpus1"
    and c2: "getCorpusAtDate d2 date = Inr corpus2"
  shows "corpusView corpus1 = corpusView corpus2"
proof -
  have sel: "selectedInvestments d1 date = selectedInvestments d2 date"
    by (simp add: selectedInvestments_def inv)
  from c1 obtain cs t where
    g1: "groupByClient (map (populate d1) (selectedInvestments d1 date)) [] 0 = Inr (cs, t)"
    and t1: "totalCorpus corpus1 = t"
    and s1: "clientShares corpus1 = map (withSharePercentage t) cs"
    by (rule getCorpusAtDate_Inr)
  from c2 obtain ds t' where
    g2': "groupByClient (map (populate d2) (selectedInvestments d2 date)) [] 0 = Inr (ds, t')"
    and t2: "totalCorpus corpus2 = t'"
    and s2: "clientShares corpus2 = map (withSharePercentage t') ds"
    by (rule getCorpusAtDate_Inr)
  from g2' have
    g2: "groupByClient (map (populate d2) (selectedInvestments d1 date)) [] 0 = Inr (ds, t')"
    by (simp add: sel)
  have "rel_sum (=) (\<lambda>r s. map shareView (fst r) = map shareView (fst s) \<and> snd r = snd s)
      (groupByClient (map (populate d1) (selectedInvestments d1 date)) [] 0)
      (groupByClient (map (populate d2) (selectedInvestments d1 date)) [] 0)"
    by (intro groupByClient_view populated_related groupByClient_inv(6)[OF g1]
        groupByClient_inv(6)[OF g2]) simp
  then have v: "map shareView cs = map shareView ds" and t: "t = t'"
    by (simp_all add: g1 g2)
  have "map (\<lambda>s. (clientId s, totalInvestment s, sharePercentage s)) (map (withSharePercentage t) cs)
      = map (\<lambda>p. (fst p, snd p, if t = 0 then 0 else toFixed2 (snd p / t * 100))) (map shareView cs)"
    by (simp add: withSharePercentage_def shareView_def comp_def)
  moreover have "map (\<lambda>s. (clientId s, totalInvestment s, sharePercentage s)) (map (withSharePercentage t) ds)
      = map (\<lambda>p. (fst p, snd p, if t = 0 then 0 else toFixed2 (snd p / t * 100))) (map shareView ds)"
    by (simp add: withSharePercentage_def shareView_def comp_def)
  ultimately show ?thesis
    using v t t1 t2 s1 s2 by (simp add: corpusView_def)
qed

lemma calculateClientReturns_view:
  assumes "corpusView corpus1 = corpusView corpus2"
  shows "calculateClientReturns d1 corpus1 p date = calculateClientReturns d2 corpus2 p date"
proof -
  have "calculateClientReturns d corpus p date
      = map (\<lambda>v. \<lparr>cr_clientId = fst v, investmentShare = fst (snd v),
                  cr_sharePercentage = snd (snd v),
                  returnAmount = fst (snd v) * (p / 100),
                  closingBalance = fst (snd v) + fst (snd v) * (p / 100)\<rparr>)
          (snd (corpusView corpus))" for d corpus
    by (simp add: calculateClientReturns_def corpusView_def Let_def comp_def)
  then show ?thesis using assms by simp
qed

definition sameLedger :: "db \<Rightarrow> db \<Rightarrow> bool" where
  "sameLedger d1 d2 =
     (investments d1 = investments d2 \<and> platformInvestments d1 = platformInvestments d2)"

lemma monthDocument_fields:
  assumes "sameLedger d1 d2" "corpusView corpus1 = corpusView corpus2"
  shows "snapshotFields (monthDocument d1 c1 m corpus1)
       = snapshotFields (monthDocument d2 c2 m corpus2)"
proof -
  have p: "getPlatformReturns d1 s e = getPlatformReturns d2 s e" for s e
    using assms(1) by (simp add: getPlatformReturns_def sameLedger_def)
  have t: "totalCorpus corpus1 = totalCorpus corpus2"
    using assms(2) by (simp add: corpusView_def)
  show ?thesis
    by (simp add: snapshotFields_def monthDocument_def Let_def p t
        calculateClientReturns_view[OF assms(2), of d1 _ _ d2])
qed

lemma month_fields_agree:
  assumes "sameLedger d1 d2"
    and "calculateMonthlyReturns d1 c1 m = Inr e1"
    and "calculateMonthlyReturns d2 c2 m = Inr e2"
  shows "\<exists>s1 s2. monthlyReturns e1 (getTime (startOfMonth m)) = Some s1
      \<and> monthlyReturns e2 (getTime (startOfMonth m)) = Some s2
      \<and> snapshotFields s1 = snapshotFields s2"
proof -
  from assms(2) obtain corpus1 where
    a: "getCorpusAtDate d1 (endOfMonth m) = Inr corpus1"
    "e1 = d1\<lparr>monthlyReturns := (monthlyReturns d1)
            (getTime (startOfMonth m) \<mapsto> monthDocument d1 c1 m corpus1),
            nextObjectId := nextObjectId d1 + idsUsed d1 m corpus1\<rparr>"
    by (rule calculateMonthlyReturns_Inr)
  from assms(3) obtain corpus2 where
    b: "getCorpusAtDate d2 (endOfMonth m) = Inr corpus2"
    "e2 = d2\<lparr>monthlyReturns := (monthlyReturns d2)
            (getTime (startOfMonth m) \<mapsto> monthDocument d2 c2 m corpus2),
            nextObjectId := nextObjectId d2 + idsUsed d2 m corpus2\<rparr>"
    by (rule calculateMonthlyReturns_Inr)
  have "corpusView corpus1 = corpusView corpus2"
    using assms(1) a(1) b(1) by (intro getCorpusAtDate_view) (simp_all add: sameLedger_def)
  then have "snapshotFields (monthDocument d1 c1 m corpus1)
       = snapshotFields (monthDocument d2 c2 m corpus2)"
    by (rule monthDocument_fields[OF assms(1)])
  then show ?thesis by (simp add: a(2) b(2))
qed

lemma same_users_same_outcome:
  assumes "sameLedger d1 d2" "users d1 = users d2"
  shows "(calculateMonthlyReturns d1 c1 m = Inl e) = (calculateMonthlyReturns d2 c2 m = Inl e)"
proof -
  have "populate d1 = populate d2"
    by (rule ext) (simp add: populate_def assms(2))
  then have "getCorpusAtDate d1 (endOfMonth m) = getCorpusAtDate d2 (endOfMonth m)"
    using assms(1) by (simp add: getCorpusAtDate_def selectedInvestments_def sameLedger_def)
  then show ?thesis
    by (simp add: calculateMonthlyReturns_cases split: sum.splits)
qed


definition sameStores :: "db \<Rightarrow> db \<Rightarrow> bool" where
  "sameStores d1 d2 =
     (users d1 = users d2 \<and> investments d1 = investments d2
      \<and> platformInvestments d1 = platformInvestments d2)"

definition fieldsAt ::
  "db \<Rightarrow> int \<Rightarrow> (jsdate \<times> rat \<times> rat \<times> rat \<times> clientReturn list \<times> platformReturn list) option" where
  "fieldsAt d k = map_option snapshotFields (monthlyReturns d k)"

definition monthFields ::
  "db \<Rightarrow> jsdate \<Rightarrow> (jsdate \<times> rat \<times> rat \<times> rat \<times> clientReturn list \<times> platformReturn list) option" where
  "monthFields d m =
     (case calculateMonthlyReturns d m m of
        Inl e \<Rightarrow> None
      | Inr d' \<Rightarrow> fieldsAt d' (getTime (startOfMonth m)))"

lemma sameStores_refl [simp]: "sameStores d d"
  by (simp add: sameStores_def)

lemma sameStores_sameLedger: "sameStores d1 d2 \<Longrightarrow> sameLedger d1 d2"
  by (simp add: sameStores_def sameLedger_def)

lemma step_fields:
  assumes s: "sameStores d d0" and c: "calculateMonthlyReturns d c m = Inr d'"
  shows "sameStores d' d0"
    and "fieldsAt d' (getTime (startOfMonth m)) = monthFields d0 m"
    and "monthFields d0 m \<noteq> None"
    and "k \<noteq> getTime (startOfMonth m) \<Longrightarrow> monthlyReturns d' k = monthlyReturns d k"
proof -
  from c obtain corpus where
    d': "d' = d\<lparr>monthlyReturns := (monthlyReturns d)
            (getTime (startOfMonth m) \<mapsto> monthDocument d c m corpus),
            nextObjectId := nextObjectId d + idsUsed d m corpus\<rparr>"
    by (rule calculateMonthlyReturns_Inr)
  show "sameStores d' d0" using s by (simp add: d' sameStores_def)
  show "k \<noteq> getTime (startOfMonth m) \<Longrightarrow> monthlyReturns d' k = monthlyReturns d k"
    by (simp add: d')
  have "calculateMonthlyReturns d0 m m \<noteq> Inl e" for e
    using same_users_same_outcome[OF sameStores_sameLedger[OF s], of c m e m] s c
    by (simp add: sameStores_def)
  then obtain e0 where e0: "calculateMonthlyReturns d0 m m = Inr e0"
    by (cases "calculateMonthlyReturns d0 m m") auto
  from month_fields_agree[OF sameStores_sameLedger[OF s] c e0]
  have "fieldsAt d' (getTime (startOfMonth m)) = fieldsAt e0 (getTime (startOfMonth m))"
    "fieldsAt e0 (getTime (startOfMonth m)) \<noteq> None"
    by (auto simp: fieldsAt_def)
  then show "fieldsAt d' (getTime (startOfMonth m)) = monthFields d0 m"
    and "monthFields d0 m \<noteq> None"
    by (simp_all add: monthFields_def e0)
qed

lemma step_fails:
  assumes s: "sameStores d d0" and c: "calculateMonthlyReturns d c m = Inl e"
  shows "monthFields d0 m = None"
  using same_users_same_outcome[OF sameStores_sameLedger[OF s], of c m e m] s c
  by (simp add: sameStores_def monthFields_def)

lemma calculateMonthlyReturns_key:
  "monthKey m = monthKey m' \<Longrightarrow>
   calculateMonthlyReturns d c m = calculateMonthlyReturns d c m'"
proof -
  assume "monthKey m = monthKey m'"
  then have "startOfMonth m = startOfMonth m'" "endOfMonth m = endOfMonth m'"
    by (simp_all add: startOfMonth_eq endOfMonth_eq)
  then show ?thesis unfolding calculateMonthlyReturns_def by (simp only:)
qed

lemma monthFields_key:
  assumes "monthKey m = monthKey m'"
  shows "monthFields d m = monthFields d m'"
proof (cases "calculateMonthlyReturns d m m")
  case (Inl e)
  then have "monthFields d m = None" by (simp add: monthFields_def)
  moreover have "calculateMonthlyReturns d m m' = Inl e"
    using Inl calculateMonthlyReturns_key[OF assms] by simp
  then have "monthFields d m' = None" by (rule step_fails[OF sameStores_refl])
  ultimately show ?thesis by simp
next
  case (Inr d')
  then have "calculateMonthlyReturns d m m' = Inr d'"
    using calculateMonthlyReturns_key[OF assms] by simp
  from step_fields(2)[OF sameStores_refl this] step_fields(2)[OF sameStores_refl Inr]
  show ?thesis using assms by (simp add: startOfMonth_eq)
qed

lemma monthFields_stores:
  assumes "sameStores d1 d2"
  shows "monthFields d1 m = monthFields d2 m"
proof (cases "calculateMonthlyReturns d1 m m")
  case (Inl e)
  then show ?thesis using step_fails[OF assms Inl] by (simp add: monthFields_def)
next
  case (Inr d')
  then show ?thesis using step_fields(2)[OF assms Inr] by (simp add: monthFields_def)
qed

lemma forMonths_stores:
  assumes "forMonths clock n ms d = (d', res)"
  shows "sameStores d' d"
    and "\<forall>k. fieldsAt d' k = fieldsAt d k
         \<or> (\<exists>m \<in> set ms. getTime (startOfMonth m) = k \<and> fieldsAt d' k = monthFields d m
               \<and> monthFields d m \<noteq> None)"
    and "\<forall>k. (\<exists>m \<in> set ms. getTime (startOfMonth m) = k)
         \<or> monthlyReturns d' k = monthlyReturns d k"
    and "res = None \<Longrightarrow> \<forall>m \<in> set ms.
         fieldsAt d' (getTime (startOfMonth m)) = monthFields d m \<and> monthFields d m \<noteq> None"
  using assms
proof (induction ms arbitrary: n d)
  case Nil
  { case 1 then show ?case by simp }
  { case 2 then show ?case by simp }
  { case 3 then show ?case by simp }
  { case 4 then show ?case by simp }
next
  case (Cons a ms)
  note IH = Cons.IH
  {
    case 1
    show ?case
    proof (cases "calculateMonthlyReturns d (clock n) a")
      case (Inl e)
      with 1 show ?thesis by simp
    next
      case (Inr d1)
      with 1 have r: "forMonths clock (Suc n) ms d1 = (d', res)" by simp
      from IH(1)[OF r] step_fields(1)[OF sameStores_refl Inr]
      show ?thesis by (simp add: sameStores_def)
    qed
  }
  {
    case 2
    show ?case
    proof (cases "calculateMonthlyReturns d (clock n) a")
      case (Inl e)
      with 2 show ?thesis by simp
    next
      case (Inr d1)
      with 2 have r: "forMonths clock (Suc n) ms d1 = (d', res)" by simp
      note sf = step_fields[OF sameStores_refl Inr]
      have mf: "monthFields d1 x = monthFields d x" for x
        by (rule monthFields_stores[OF sf(1)])
      show ?thesis
      proof
        fix k
        from IH(2)[OF r, THEN spec, of k]
        show "fieldsAt d' k = fieldsAt d k
         \<or> (\<exists>m \<in> set (a # ms). getTime (startOfMonth m) = k \<and> fieldsAt d' k = monthFields d m
               \<and> monthFields d m \<noteq> None)"
        proof
          assume same: "fieldsAt d' k = fieldsAt d1 k"
          show ?thesis
          proof (cases "k = getTime (startOfMonth a)")
            case True
            then show ?thesis using same sf(2) sf(3) by auto
          next
            case False
            then show ?thesis using same sf(4)[of k] by (simp add: fieldsAt_def)
          qed
        next
          assume "\<exists>m \<in> set ms. getTime (startOfMonth m) = k \<and> fieldsAt d' k = monthFields d1 m
               \<and> monthFields d1 m \<noteq> None"
          then show ?thesis by (auto simp: mf)
        qed
      qed
    qed
  }
  {
    case 3
    show ?case
    proof (cases "calculateMonthlyReturns d (clock n) a")
      case (Inl e)
      with 3 show ?thesis by simp
    next
      case (Inr d1)
      with 3 have r: "forMonths clock (Suc n) ms d1 = (d', res)" by simp
      note sf = step_fields[OF sameStores_refl Inr]
      show ?thesis
      proof
        fix k
        from IH(3)[OF r, THEN spec, of k] sf(4)[of k]
        show "(\<exists>m \<in> set (a # ms). getTime (startOfMonth m) = k)
         \<or> monthlyReturns d' k = monthlyReturns d k" by auto
      qed
    qed
  }
  {
    case 4
    show ?case
    proof (cases "calculateMonthlyReturns d (clock n) a")
      case (Inl e)
      with 4 show ?thesis by simp
    next
      case (Inr d1)
      with 4 have r: "forMonths clock (Suc n) ms d1 = (d', res)" by simp
      note sf = step_fields[OF sameStores_refl Inr]
      have mf: "monthFields d1 x = monthFields d x" for x
        by (rule monthFields_stores[OF sf(1)])
      have first: "fieldsAt d' (getTime (startOfMonth a)) = monthFields d a
          \<and> monthFields d a \<noteq> None"
        using IH(2)[OF r, THEN spec, of "getTime (startOfMonth a)"]
        proof
          assume "fieldsAt d' (getTime (startOfMonth a)) = fieldsAt d1 (getTime (startOfMonth a))"
          then show ?thesis using sf(2) sf(3) by simp
        next
          assume "\<exists>m \<in> set ms. getTime (startOfMonth m) = getTime (startOfMonth a)
               \<and> fieldsAt d' (getTime (startOfMonth a)) = monthFields d1 m
               \<and> monthFields d1 m \<noteq> None"
          then obtain m' where m': "m' \<in> set ms"
            "getTime (startOfMonth m') = getTime (startOfMonth a)"
            "fieldsAt d' (getTime (startOfMonth a)) = monthFields d1 m'"
            "monthFields d1 m' \<noteq> None" by blast
          have "monthKey m' = monthKey a" using m'(2) by (simp add: startOfMonth_key)
          then have "monthFields d m' = monthFields d a" by (rule monthFields_key)
          then show ?thesis using m'(3) m'(4) by (simp add: mf)
        qed
      show ?thesis using IH(4)[OF 4(1) r] first by (simp add: mf)
    qed
  }
qed


lemma forMonths_succeeds:
  "\<forall>m \<in> set ms. monthFields d m \<noteq> None \<Longrightarrow> \<exists>d'. forMonths clock n ms d = (d', None)"
proof (induction ms arbitrary: n d)
  case Nil
  then show ?case by simp
next
  case (Cons a ms)
  have "calculateMonthlyReturns d (clock n) a \<noteq> Inl e" for e
    using step_fails[OF sameStores_refl, of d "clock n" a e] Cons.prems by auto
  then obtain d1 where s: "calculateMonthlyReturns d (clock n) a = Inr d1"
    by (cases "calculateMonthlyReturns d (clock n) a") auto
  have "monthFields d1 m = monthFields d m" for m
    by (rule monthFields_stores[OF step_fields(1)[OF sameStores_refl s]])
  then have "\<forall>m \<in> set ms. monthFields d1 m \<noteq> None" using Cons.prems by simp
  from Cons.IH[OF this, of "Suc n"] show ?case by (simp add: s)
qed

lemma snapshotFields_eq:
  "snapshotFields a = snapshotFields b \<longleftrightarrow>
     month a = month b \<and> mr_totalCorpus a = mr_totalCorpus b
   \<and> totalPlatformValue a = totalPlatformValue b
   \<and> monthlyReturnPercentage a = monthlyReturnPercentage b
   \<and> clientReturns a = clientReturns b \<and> mr_platformReturns a = mr_platformReturns b"
  by (auto simp: snapshotFields_def)

lemma ledgerP_months:
  "getMonthsFromDate (newDate 2024 2 10) (newDate 2024 0 20)
     = [\<lparr>monthIndex = 24288, msInMonth = 0\<rparr>, \<lparr>monthIndex = 24289, msInMonth = 0\<rparr>,
        \<lparr>monthIndex = 24290, msInMonth = 0\<rparr>]"
  by code_simp

text \<open>
  What a calculation adds to the named fields: the two timestamps of the call, the
  identifiers of the entries, drawn from the supply, and \<open>createdAt\<close>, which an
  existing document keeps. \<open>entryIds\<close> are the identifiers of all entries of a
  document.
\<close>

definition entryIds :: "monthlyReturn \<Rightarrow> nat list" where
  "entryIds sn = clientReturnIds sn @ platformReturnIds sn"

lemma monthDocument_stamps:
  "calculatedAt (monthDocument d c m corpus) = c"
  "updatedAt (monthDocument d c m corpus) = c"
  "createdAt (monthDocument d c m corpus)
     = (case monthlyReturns d (getTime (startOfMonth m)) of None \<Rightarrow> c | Some stored \<Rightarrow> createdAt stored)"
  "x \<in> set (entryIds (monthDocument d c m corpus)) \<Longrightarrow>
     nextObjectId d \<le> x \<and> x < nextObjectId d + idsUsed d m corpus"
  by (auto simp: monthDocument_def Let_def entryIds_def idsUsed_def)

lemma step_stamps:
  assumes c: "calculateMonthlyReturns d c m = Inr d'"
  shows "nextObjectId d \<le> nextObjectId d'"
    and "\<exists>sn. monthlyReturns d' (getTime (startOfMonth m)) = Some sn
          \<and> calculatedAt sn = c \<and> updatedAt sn = c
          \<and> (\<forall>x \<in> set (entryIds sn). nextObjectId d \<le> x \<and> x < nextObjectId d')
          \<and> createdAt sn =
              (case monthlyReturns d (getTime (startOfMonth m)) of
                 None \<Rightarrow> c | Some stored \<Rightarrow> createdAt stored)"
proof -
  from c obtain corpus where
    d': "d' = d\<lparr>monthlyReturns := (monthlyReturns d)
            (getTime (startOfMonth m) \<mapsto> monthDocument d c m corpus),
            nextObjectId := nextObjectId d + idsUsed d m corpus\<rparr>"
    by (rule calculateMonthlyReturns_Inr)
  show "nextObjectId d \<le> nextObjectId d'" by (simp add: d')
  show "\<exists>sn. monthlyReturns d' (getTime (startOfMonth m)) = Some sn
          \<and> calculatedAt sn = c \<and> updatedAt sn = c
          \<and> (\<forall>x \<in> set (entryIds sn). nextObjectId d \<le> x \<and> x < nextObjectId d')
          \<and> createdAt sn =
              (case monthlyReturns d (getTime (startOfMonth m)) of
                 None \<Rightarrow> c | Some stored \<Rightarrow> createdAt stored)"
    using monthDocument_stamps(4)[of _ d c m corpus]
    by (auto simp: d' monthDocument_stamps(1,2,3))
qed

lemma forMonths_ids_mono:
  "forMonths clock n ms d = (d', res) \<Longrightarrow> nextObjectId d \<le> nextObjectId d'"
proof (induction ms arbitrary: n d)
  case Nil
  then show ?case by simp
next
  case (Cons a ms)
  show ?case
  proof (cases "calculateMonthlyReturns d (clock n) a")
    case (Inl e)
    with Cons.prems show ?thesis by simp
  next
    case (Inr d1)
    with Cons.prems have r: "forMonths clock (Suc n) ms d1 = (d', res)" by simp
    from Cons.IH[OF r] step_stamps(1)[OF Inr] show ?thesis by simp
  qed
qed

lemma forMonths_stamps:
  assumes "forMonths clock n ms d = (d', None)"
  shows "\<forall>m \<in> set ms. \<exists>sn i.
      monthlyReturns d' (getTime (startOfMonth m)) = Some sn
    \<and> n \<le> i \<and> i < n + length ms
    \<and> calculatedAt sn = clock i \<and> updatedAt sn = clock i
    \<and> (\<forall>x \<in> set (entryIds sn). nextObjectId d \<le> x \<and> x < nextObjectId d')"
  using assms
proof (induction ms arbitrary: n d)
  case Nil
  then show ?case by simp
next
  case (Cons a ms)
  from Cons.prems obtain d1 where
    s: "calculateMonthlyReturns d (clock n) a = Inr d1"
    and r: "forMonths clock (Suc n) ms d1 = (d', None)"
    by (auto split: sum.splits)
  note st = step_stamps[OF s]
  note mono = forMonths_ids_mono[OF r]
  have rest: "\<forall>m \<in> set ms. \<exists>sn i.
      monthlyReturns d' (getTime (startOfMonth m)) = Some sn
    \<and> n \<le> i \<and> i < n + length (a # ms)
    \<and> calculatedAt sn = clock i \<and> updatedAt sn = clock i
    \<and> (\<forall>x \<in> set (entryIds sn). nextObjectId d \<le> x \<and> x < nextObjectId d')"
  proof
    fix m assume "m \<in> set ms"
    with Cons.IH[OF r] obtain sn i where
      h: "monthlyReturns d' (getTime (startOfMonth m)) = Some sn"
        "Suc n \<le> i" "i < Suc n + length ms"
        "calculatedAt sn = clock i" "updatedAt sn = clock i"
        "\<forall>x \<in> set (entryIds sn). nextObjectId d1 \<le> x \<and> x < nextObjectId d'"
      by blast
    have "\<forall>x \<in> set (entryIds sn). nextObjectId d \<le> x \<and> x < nextObjectId d'"
      using h(6) st(1) by auto
    with h show "\<exists>sn i.
      monthlyReturns d' (getTime (startOfMonth m)) = Some sn
    \<and> n \<le> i \<and> i < n + length (a # ms)
    \<and> calculatedAt sn = clock i \<and> updatedAt sn = clock i
    \<and> (\<forall>x \<in> set (entryIds sn). nextObjectId d \<le> x \<and> x < nextObjectId d')"
      by (intro exI[of _ sn] exI[of _ i]) simp
  qed
  have first: "\<exists>sn i.
      monthlyReturns d' (getTime (startOfMonth a)) = Some sn
    \<and> n \<le> i \<and> i < n + length (a # ms)
    \<and> calculatedAt sn = clock i \<and> updatedAt sn = clock i
    \<and> (\<forall>x \<in> set (entryIds sn). nextObjectId d \<le> x \<and> x < nextObjectId d')"
  proof (cases "\<exists>m \<in> set ms. getTime (startOfMonth m) = getTime (startOfMonth a)")
    case True
    then obtain m where "m \<in> set ms" "getTime (startOfMonth m) = getTime (startOfMonth a)"
      by blast
    with rest show ?thesis by metis
  next
    case False
    with forMonths_stores(3)[OF r, THEN spec, of "getTime (startOfMonth a)"]
    have same: "monthlyReturns d' (getTime (startOfMonth a))
        = monthlyReturns d1 (getTime (startOfMonth a))" by blast
    from st(2) obtain sn where
      sn: "monthlyReturns d1 (getTime (startOfMonth a)) = Some sn"
        "calculatedAt sn = clock n" "updatedAt sn = clock n"
        "\<forall>x \<in> set (entryIds sn). nextObjectId d \<le> x \<and> x < nextObjectId d1"
      by blast
    have "\<forall>x \<in> set (entryIds sn). nextObjectId d \<le> x \<and> x < nextObjectId d'"
      using sn(4) mono by auto
    with sn same show ?thesis
      by (intro exI[of _ sn] exI[of _ n]) simp
  qed
  show ?case using first rest by simp
qed

lemma forMonths_createdAt:
  assumes "forMonths clock n ms d = (d', res)" "monthlyReturns d k = Some old"
  shows "\<exists>sn. monthlyReturns d' k = Some sn \<and> createdAt sn = createdAt old"
  using assms
proof (induction ms arbitrary: n d old)
  case Nil
  then show ?case by simp
next
  case (Cons a ms)
  show ?case
  proof (cases "calculateMonthlyReturns d (clock n) a")
    case (Inl e)
    with Cons.prems show ?thesis by simp
  next
    case (Inr d1)
    with Cons.prems have r: "forMonths clock (Suc n) ms d1 = (d', res)" by simp
    have "\<exists>mid. monthlyReturns d1 k = Some mid \<and> createdAt mid = createdAt old"
    proof (cases "k = getTime (startOfMonth a)")
      case True
      with step_stamps(2)[OF Inr] Cons.prems(2) show ?thesis by auto
    next
      case False
      with step_fields(4)[OF sameStores_refl Inr, of k] Cons.prems(2) show ?thesis by simp
    qed
    then obtain mid where mid: "monthlyReturns d1 k = Some mid" "createdAt mid = createdAt old"
      by blast
    from Cons.IH[OF r mid(1)] mid(2) show ?thesis by simp
  qed
qed


text \<open>
  Claim C9 says that a second \<open>recalculateFromDate\<close> with no mutation in between
  leaves identical documents. Every calculation stamps its document with the current
  time and writes its entries as new subdocuments: on \<open>ledgerP\<close>, a run on 10 March
  2024 and a second one on 11 March both recalculate three months, and the January
  document of the second run differs from the one of the first in \<open>calculatedAt\<close>,
  in \<open>updatedAt\<close> and in the \<open>_id\<close> of its client return.
\<close>

theorem second_run_restamps_counterexample:
  "(case recalculateFromDate ledgerP (\<lambda>n. newDate 2024 2 10) (newDate 2024 0 20) of
      (d1, r1) \<Rightarrow>
        (case recalculateFromDate d1 (\<lambda>n. newDate 2024 2 11) (newDate 2024 0 20) of
           (d2, r2) \<Rightarrow>
               r1 = Inr \<lparr>success = True, monthsRecalculated = 3\<rparr>
             \<and> r2 = Inr \<lparr>success = True, monthsRecalculated = 3\<rparr>
             \<and> map_option calculatedAt (monthlyReturns d1 (getTime (newDate 2024 0 1)))
                 = Some (newDate 2024 2 10)
             \<and> map_option calculatedAt (monthlyReturns d2 (getTime (newDate 2024 0 1)))
                 = Some (newDate 2024 2 11)
             \<and> map_option updatedAt (monthlyReturns d1 (getTime (newDate 2024 0 1)))
                 = Some (newDate 2024 2 10)
             \<and> map_option updatedAt (monthlyReturns d2 (getTime (newDate 2024 0 1)))
                 = Some (newDate 2024 2 11)
             \<and> map_option clientReturnIds (monthlyReturns d1 (getTime (newDate 2024 0 1)))
                 = Some [100]
             \<and> map_option clientReturnIds (monthlyReturns d2 (getTime (newDate 2024 0 1)))
                 = Some [108]
             \<and> monthlyReturns d2 (getTime (newDate 2024 0 1))
                 \<noteq> monthlyReturns d1 (getTime (newDate 2024 0 1))))"
  by code_simp

text \<open>
  Claim C9, amended. After a run of \<open>recalculateFromDate\<close> that returned, a second
  run from the same date with no mutation in between (whatever the clock reads, and
  whether or not it returns) leaves, for every month of the first run, a document with
  the same month, total corpus, total platform value, return percentage, client returns
  and platform returns, and the same \<open>createdAt\<close>. The documents are not identical:
  when the second run returns, every such month it enumerates too carries
  \<open>calculatedAt\<close> and \<open>updatedAt\<close> read from the clock by one of the calculations of the
  second run, and the identifiers of its entries are all new. A month of which the
  second run calculates no date keeps its document as it was.
\<close>

theorem second_run_same_fields_new_stamps:
  assumes "recalculateFromDate d clock fromDate = (d1, Inr r1)"
    and "recalculateFromDate d1 clock' fromDate = (d2, res2)"
  shows "\<forall>m \<in> set (getMonthsFromDate (clock 0) fromDate).
      \<exists>sn1 sn2.
        monthlyReturns d1 (getTime (startOfMonth m)) = Some sn1
      \<and> monthlyReturns d2 (getTime (startOfMonth m)) = Some sn2
      \<and> month sn2 = month sn1 \<and> mr_totalCorpus sn2 = mr_totalCorpus sn1
      \<and> totalPlatformValue sn2 = totalPlatformValue sn1
      \<and> monthlyReturnPercentage sn2 = monthlyReturnPercentage sn1
      \<and> clientReturns sn2 = clientReturns sn1
      \<and> mr_platformReturns sn2 = mr_platformReturns sn1
      \<and> createdAt sn2 = createdAt sn1
      \<and> ((\<exists>r2. res2 = Inr r2) \<and> m \<in> set (getMonthsFromDate (clock' 0) fromDate) \<longrightarrow>
            (\<exists>i. 1 \<le> i \<and> i \<le> length (getMonthsFromDate (clock' 0) fromDate)
                \<and> calculatedAt sn2 = clock' i \<and> updatedAt sn2 = clock' i)
          \<and> set (clientReturnIds sn2 @ platformReturnIds sn2)
              \<inter> set (clientReturnIds sn1 @ platformReturnIds sn1) = {})
      \<and> ((\<forall>m' \<in> set (getMonthsFromDate (clock' 0) fromDate).
              getTime (startOfMonth m') \<noteq> getTime (startOfMonth m)) \<longrightarrow> sn2 = sn1)"
proof
  fix m assume m: "m \<in> set (getMonthsFromDate (clock 0) fromDate)"
  let ?k = "getTime (startOfMonth m)"
  let ?ms2 = "getMonthsFromDate (clock' 0) fromDate"
  from assms(1) have f1: "forMonths clock 1 (getMonthsFromDate (clock 0) fromDate) d = (d1, None)"
    by (auto simp: recalculateFromDate_def Let_def split: prod.splits option.splits)
  obtain r where f2: "forMonths clock' 1 ?ms2 d1 = (d2, r)"
    and r: "(\<exists>r2. res2 = Inr r2) \<longrightarrow> r = None"
    using assms(2)
    by (auto simp: recalculateFromDate_def Let_def split: prod.splits option.splits)
  note a = forMonths_stores[OF f1]
  note b = forMonths_stores[OF f2]
  from a(4) m have one: "fieldsAt d1 ?k = monthFields d m" "monthFields d m \<noteq> None"
    by simp_all
  have mf: "monthFields d1 x = monthFields d x" for x
    by (rule monthFields_stores[OF a(1)])
  have two: "fieldsAt d2 ?k = fieldsAt d1 ?k"
    using b(2)[THEN spec, of ?k]
  proof
    assume "fieldsAt d2 ?k = fieldsAt d1 ?k"
    then show ?thesis .
  next
    assume "\<exists>m' \<in> set ?ms2.
        getTime (startOfMonth m') = ?k \<and> fieldsAt d2 ?k = monthFields d1 m'
        \<and> monthFields d1 m' \<noteq> None"
    then obtain m' where m': "getTime (startOfMonth m') = ?k"
      "fieldsAt d2 ?k = monthFields d1 m'" by blast
    have "monthKey m' = monthKey m" using m'(1) by (simp add: startOfMonth_key)
    then have "monthFields d m' = monthFields d m" by (rule monthFields_key)
    then show ?thesis using m'(2) one(1) by (simp add: mf)
  qed
  from one obtain sn1 where sn1: "monthlyReturns d1 ?k = Some sn1"
    by (auto simp: fieldsAt_def)
  with two obtain sn2 where sn2: "monthlyReturns d2 ?k = Some sn2"
    "snapshotFields sn2 = snapshotFields sn1"
    by (auto simp: fieldsAt_def)
  have created: "createdAt sn2 = createdAt sn1"
    using forMonths_createdAt[OF f2 sn1] sn2(1) by simp
  have stamped: "(\<exists>i. 1 \<le> i \<and> i \<le> length ?ms2
                \<and> calculatedAt sn2 = clock' i \<and> updatedAt sn2 = clock' i)
          \<and> set (clientReturnIds sn2 @ platformReturnIds sn2)
              \<inter> set (clientReturnIds sn1 @ platformReturnIds sn1) = {}"
    if h: "(\<exists>r2. res2 = Inr r2) \<and> m \<in> set ?ms2"
  proof -
    from h r have f2': "forMonths clock' 1 ?ms2 d1 = (d2, None)" using f2 by simp
    from forMonths_stamps[OF f2', THEN bspec, of m] h sn2(1) obtain i where
      i: "1 \<le> i" "i < 1 + length ?ms2" "calculatedAt sn2 = clock' i" "updatedAt sn2 = clock' i"
        "\<forall>x \<in> set (entryIds sn2). nextObjectId d1 \<le> x"
      by auto
    from forMonths_stamps[OF f1, THEN bspec, OF m] sn1 have
      "\<forall>x \<in> set (entryIds sn1). x < nextObjectId d1"
      by auto
    with i(5) have "set (entryIds sn2) \<inter> set (entryIds sn1) = {}"
      by fastforce
    then have "set (clientReturnIds sn2 @ platformReturnIds sn2)
              \<inter> set (clientReturnIds sn1 @ platformReturnIds sn1) = {}"
      by (simp add: entryIds_def)
    moreover have "\<exists>i. 1 \<le> i \<and> i \<le> length ?ms2
                \<and> calculatedAt sn2 = clock' i \<and> updatedAt sn2 = clock' i"
      using i(1-4) by (intro exI[of _ i]) simp
    ultimately show ?thesis by (rule conjI[rotated])
  qed
  have untouched: "sn2 = sn1"
    if h: "\<forall>m' \<in> set ?ms2. getTime (startOfMonth m') \<noteq> ?k"
    using b(3)[THEN spec, of ?k] h sn1 sn2(1) by auto
  show "\<exists>sn1 sn2.
        monthlyReturns d1 ?k = Some sn1
      \<and> monthlyReturns d2 ?k = Some sn2
      \<and> month sn2 = month sn1 \<and> mr_totalCorpus sn2 = mr_totalCorpus sn1
      \<and> totalPlatformValue sn2 = totalPlatformValue sn1
      \<and> monthlyReturnPercentage sn2 = monthlyReturnPercentage sn1
      \<and> clientReturns sn2 = clientReturns sn1
      \<and> mr_platformReturns sn2 = mr_platformReturns sn1
      \<and> createdAt sn2 = createdAt sn1
      \<and> ((\<exists>r2. res2 = Inr r2) \<and> m \<in> set ?ms2 \<longrightarrow>
            (\<exists>i. 1 \<le> i \<and> i \<le> length ?ms2
                \<and> calculatedAt sn2 = clock' i \<and> updatedAt sn2 = clock' i)
          \<and> set (clientReturnIds sn2 @ platformReturnIds sn2)
              \<inter> set (clientReturnIds sn1 @ platformReturnIds sn1) = {})
      \<and> ((\<forall>m' \<in> set ?ms2. getTime (startOfMonth m') \<noteq> ?k) \<longrightarrow> sn2 = sn1)"
    using sn1 sn2 created stamped untouched
    by (intro exI[of _ sn1] exI[of _ sn2]) (simp add: snapshotFields_eq)
qed

lemma ledgerP_months_later:
  "getMonthsFromDate (newDate 2024 2 11) (newDate 2024 0 20)
     = [\<lparr>monthIndex = 24288, msInMonth = 0\<rparr>, \<lparr>monthIndex = 24289, msInMonth = 0\<rparr>,
        \<lparr>monthIndex = 24290, msInMonth = 0\<rparr>]"
  by code_simp

lemma ledgerP_months_earlier:
  "getMonthsFromDate (newDate 2024 0 25) (newDate 2024 0 20)
     = [\<lparr>monthIndex = 24288, msInMonth = 0\<rparr>]"
  by code_simp

theorem second_run_same_fields_new_stamps_witness:
  "(case recalculateFromDate ledgerP (\<lambda>n. newDate 2024 2 10) (newDate 2024 0 20) of
      (d1, r1) \<Rightarrow>
        (case recalculateFromDate d1 (\<lambda>n. newDate 2024 2 11) (newDate 2024 0 20) of
           (d2, r2) \<Rightarrow>
             (case (monthlyReturns d1 (getTime (newDate 2024 1 1)),
                    monthlyReturns d2 (getTime (newDate 2024 1 1))) of
                (Some sn1, Some sn2) \<Rightarrow>
                    clientReturns sn2 = clientReturns sn1
                  \<and> mr_totalCorpus sn2 = mr_totalCorpus sn1
                  \<and> createdAt sn2 = createdAt sn1
                  \<and> calculatedAt sn2 = newDate 2024 2 11
                  \<and> updatedAt sn2 = newDate 2024 2 11
                  \<and> set (clientReturnIds sn2 @ platformReturnIds sn2)
                      \<inter> set (clientReturnIds sn1 @ platformReturnIds sn1) = {}
              | _ \<Rightarrow> False)))
   \<and> (case recalculateFromDate ledgerP (\<lambda>n. newDate 2024 2 10) (newDate 2024 0 20) of
      (d1, r1) \<Rightarrow>
        (case recalculateFromDate d1 (\<lambda>n. newDate 2024 0 25) (newDate 2024 0 20) of
           (d2, r2) \<Rightarrow>
               monthlyReturns d1 (getTime (newDate 2024 1 1)) \<noteq> None
             \<and> monthlyReturns d2 (getTime (newDate 2024 1 1))
                 = monthlyReturns d1 (getTime (newDate 2024 1 1))))"
proof -
  have "(case recalculateFromDate ledgerP (\<lambda>n. newDate 2024 2 10) (newDate 2024 0 20) of
         (d', Inl e) \<Rightarrow> False | (d', Inr r) \<Rightarrow> True)"
    by code_simp
  then obtain d1 r1 where
    run1: "recalculateFromDate ledgerP (\<lambda>n. newDate 2024 2 10) (newDate 2024 0 20) = (d1, Inr r1)"
    by (auto split: prod.splits sum.splits)
  have "(case recalculateFromDate ledgerP (\<lambda>n. newDate 2024 2 10) (newDate 2024 0 20) of
      (d1, r1) \<Rightarrow>
        (case recalculateFromDate d1 (\<lambda>n. newDate 2024 2 11) (newDate 2024 0 20) of
           (d', Inl e) \<Rightarrow> False | (d', Inr r) \<Rightarrow> True))"
    by code_simp
  then obtain d2 r2 where
    run2: "recalculateFromDate d1 (\<lambda>n. newDate 2024 2 11) (newDate 2024 0 20) = (d2, Inr r2)"
    by (auto simp: run1 split: prod.splits sum.splits)
  obtain d3 r3 where
    run3: "recalculateFromDate d1 (\<lambda>n. newDate 2024 0 25) (newDate 2024 0 20) = (d3, r3)"
    by (cases "recalculateFromDate d1 (\<lambda>n. newDate 2024 0 25) (newDate 2024 0 20)")
  have m: "\<lparr>monthIndex = 24289, msInMonth = 0\<rparr>
      \<in> set (getMonthsFromDate ((\<lambda>n::nat. newDate 2024 2 10) 0) (newDate 2024 0 20))"
    by (simp add: ledgerP_months)
  have m2: "\<lparr>monthIndex = 24289, msInMonth = 0\<rparr>
      \<in> set (getMonthsFromDate ((\<lambda>n::nat. newDate 2024 2 11) 0) (newDate 2024 0 20))"
    by (simp add: ledgerP_months_later)
  have k: "getTime (startOfMonth \<lparr>monthIndex = 24289, msInMonth = 0\<rparr>) = getTime (newDate 2024 1 1)"
    by code_simp
  have k3: "\<forall>m' \<in> set (getMonthsFromDate ((\<lambda>n::nat. newDate 2024 0 25) 0) (newDate 2024 0 20)).
      getTime (startOfMonth m') \<noteq> getTime (startOfMonth \<lparr>monthIndex = 24289, msInMonth = 0\<rparr>)"
    unfolding ledgerP_months_earlier by code_simp
  from second_run_same_fields_new_stamps[OF run1 run2, THEN bspec, OF m]
  obtain sn1 sn2 where a:
    "monthlyReturns d1 (getTime (newDate 2024 1 1)) = Some sn1"
    "monthlyReturns d2 (getTime (newDate 2024 1 1)) = Some sn2"
    "mr_totalCorpus sn2 = mr_totalCorpus sn1" "clientReturns sn2 = clientReturns sn1"
    "createdAt sn2 = createdAt sn1"
    "(\<exists>r2'. (Inr r2 :: error + recalculation) = Inr r2')
       \<and> \<lparr>monthIndex = 24289, msInMonth = 0\<rparr>
          \<in> set (getMonthsFromDate ((\<lambda>n::nat. newDate 2024 2 11) 0) (newDate 2024 0 20)) \<longrightarrow>
            (\<exists>i. 1 \<le> i \<and> i \<le> length (getMonthsFromDate ((\<lambda>n::nat. newDate 2024 2 11) 0) (newDate 2024 0 20))
                \<and> calculatedAt sn2 = (\<lambda>n::nat. newDate 2024 2 11) i
                \<and> updatedAt sn2 = (\<lambda>n::nat. newDate 2024 2 11) i)
          \<and> set (clientReturnIds sn2 @ platformReturnIds sn2)
              \<inter> set (clientReturnIds sn1 @ platformReturnIds sn1) = {}"
    unfolding k by blast
  from a(6) m2 have b:
    "calculatedAt sn2 = newDate 2024 2 11" "updatedAt sn2 = newDate 2024 2 11"
    "set (clientReturnIds sn2 @ platformReturnIds sn2)
              \<inter> set (clientReturnIds sn1 @ platformReturnIds sn1) = {}"
    by auto
  have first: "(case recalculateFromDate ledgerP (\<lambda>n. newDate 2024 2 10) (newDate 2024 0 20) of
      (d1, r1) \<Rightarrow>
        (case recalculateFromDate d1 (\<lambda>n. newDate 2024 2 11) (newDate 2024 0 20) of
           (d2, r2) \<Rightarrow>
             (case (monthlyReturns d1 (getTime (newDate 2024 1 1)),
                    monthlyReturns d2 (getTime (newDate 2024 1 1))) of
                (Some sn1, Some sn2) \<Rightarrow>
                    clientReturns sn2 = clientReturns sn1
                  \<and> mr_totalCorpus sn2 = mr_totalCorpus sn1
                  \<and> createdAt sn2 = createdAt sn1
                  \<and> calculatedAt sn2 = newDate 2024 2 11
                  \<and> updatedAt sn2 = newDate 2024 2 11
                  \<and> set (clientReturnIds sn2 @ platformReturnIds sn2)
                      \<inter> set (clientReturnIds sn1 @ platformReturnIds sn1) = {}
              | _ \<Rightarrow> False)))"
    using a(1-5) b by (simp add: run1 run2)
  from second_run_same_fields_new_stamps[OF run1 run3, THEN bspec, OF m]
  obtain tn1 tn3 where c:
    "monthlyReturns d1 (getTime (newDate 2024 1 1)) = Some tn1"
    "monthlyReturns d3 (getTime (newDate 2024 1 1)) = Some tn3"
    "(\<forall>m' \<in> set (getMonthsFromDate ((\<lambda>n::nat. newDate 2024 0 25) 0) (newDate 2024 0 20)).
        getTime (startOfMonth m') \<noteq> getTime (newDate 2024 1 1)) \<longrightarrow> tn3 = tn1"
    unfolding k by blast
  from c(3) k3 have "tn3 = tn1" unfolding k by blast
  then have second: "(case recalculateFromDate ledgerP (\<lambda>n. newDate 2024 2 10) (newDate 2024 0 20) of
      (d1, r1) \<Rightarrow>
        (case recalculateFromDate d1 (\<lambda>n. newDate 2024 0 25) (newDate 2024 0 20) of
           (d2, r2) \<Rightarrow>
               monthlyReturns d1 (getTime (newDate 2024 1 1)) \<noteq> None
             \<and> monthlyReturns d2 (getTime (newDate 2024 1 1))
                 = monthlyReturns d1 (getTime (newDate 2024 1 1))))"
    using c(1,2) by (simp add: run1 run3)
  show ?thesis using first second by (rule conjI)
qed

text \<open>
  Claim C10 (noninterference). The fields a monthly calculation writes, other than
  \<open>calculatedAt\<close>, depend only on the investments and the platform investments: two
  calculations of a month over stores that agree on these and differ in the stored
  monthly documents (and in the users, as long as both find every client) write the
  same fields; with the same users both end the same way. Hence a cascade over the same
  months in any order stores the same fields for every month.
\<close>

theorem month_snapshot_noninterference:
  "(investments d1 = investments d2 \<and> platformInvestments d1 = platformInvestments d2 \<longrightarrow>
      (calculateMonthlyReturns d1 c1 m = Inr e1 \<and> calculateMonthlyReturns d2 c2 m = Inr e2 \<longrightarrow>
         (\<exists>s1 s2.
            monthlyReturns e1 (getTime (startOfMonth m)) = Some s1
          \<and> monthlyReturns e2 (getTime (startOfMonth m)) = Some s2
          \<and> month s1 = month s2 \<and> mr_totalCorpus s1 = mr_totalCorpus s2
          \<and> totalPlatformValue s1 = totalPlatformValue s2
          \<and> monthlyReturnPercentage s1 = monthlyReturnPercentage s2
          \<and> clientReturns s1 = clientReturns s2
          \<and> mr_platformReturns s1 = mr_platformReturns s2))
    \<and> (users d1 = users d2 \<longrightarrow>
         (\<forall>e. (calculateMonthlyReturns d1 c1 m = Inl e) = (calculateMonthlyReturns d2 c2 m = Inl e))))
   \<and> (set ms = set ms' \<and> forMonths clock n ms d = (dA, None) \<longrightarrow>
        (\<exists>dB. forMonths clock' n' ms' d = (dB, None)
           \<and> (\<forall>k. map_option snapshotFields (monthlyReturns dA k)
                  = map_option snapshotFields (monthlyReturns dB k))))"
proof (intro conjI impI allI)
  assume h: "investments d1 = investments d2 \<and> platformInvestments d1 = platformInvestments d2"
  then have sl: "sameLedger d1 d2" by (simp add: sameLedger_def)
  {
    assume "calculateMonthlyReturns d1 c1 m = Inr e1 \<and> calculateMonthlyReturns d2 c2 m = Inr e2"
    then show "\<exists>s1 s2.
            monthlyReturns e1 (getTime (startOfMonth m)) = Some s1
          \<and> monthlyReturns e2 (getTime (startOfMonth m)) = Some s2
          \<and> month s1 = month s2 \<and> mr_totalCorpus s1 = mr_totalCorpus s2
          \<and> totalPlatformValue s1 = totalPlatformValue s2
          \<and> monthlyReturnPercentage s1 = monthlyReturnPercentage s2
          \<and> clientReturns s1 = clientReturns s2
          \<and> mr_platformReturns s1 = mr_platformReturns s2"
      using month_fields_agree[OF sl, of c1 m e1 c2 e2] by (simp add: snapshotFields_eq)
  }
  {
    fix e assume "users d1 = users d2"
    then show "(calculateMonthlyReturns d1 c1 m = Inl e) = (calculateMonthlyReturns d2 c2 m = Inl e)"
      by (rule same_users_same_outcome[OF sl])
  }
next
  assume h: "set ms = set ms' \<and> forMonths clock n ms d = (dA, None)"
  note a = forMonths_stores[OF h[THEN conjunct2]]
  from a(4) have ok: "\<forall>m \<in> set ms'. monthFields d m \<noteq> None" using h by simp
  from forMonths_succeeds[OF ok] obtain dB where
    fb: "forMonths clock' n' ms' d = (dB, None)" by blast
  note b = forMonths_stores[OF fb]
  have "map_option snapshotFields (monthlyReturns dA k)
      = map_option snapshotFields (monthlyReturns dB k)" for k
  proof (cases "\<exists>m \<in> set ms. getTime (startOfMonth m) = k")
    case True
    then obtain m where m: "m \<in> set ms" "getTime (startOfMonth m) = k" by blast
    from a(4) m have "fieldsAt dA k = monthFields d m" by auto
    moreover from b(4) m h have "fieldsAt dB k = monthFields d m" by auto
    ultimately show ?thesis by (simp add: fieldsAt_def)
  next
    case False
    with a(3)[THEN spec, of k] b(3)[THEN spec, of k] h
    have "monthlyReturns dA k = monthlyReturns d k" "monthlyReturns dB k = monthlyReturns d k"
      by auto
    then show ?thesis by simp
  qed
  with fb show "\<exists>dB. forMonths clock' n' ms' d = (dB, None)
           \<and> (\<forall>k. map_option snapshotFields (monthlyReturns dA k)
                  = map_option snapshotFields (monthlyReturns dB k))"
    by blast
qed


definition ledgerQ :: db where
  "ledgerQ =
     ledgerP\<lparr>users := [\<lparr>user_id = 2, user_name = ''B. Okafor''\<rparr>,
                       \<lparr>user_id = 3, user_name = ''Chen''\<rparr>,
                       \<lparr>user_id = 1, user_name = ''A. Rao''\<rparr>],
             monthlyReturns :=
               [getTime (newDate 2024 0 1) \<mapsto>
                 \<lparr>month = newDate 2024 0 1, mr_totalCorpus = 1, totalPlatformValue = 1,
                  monthlyReturnPercentage = 50,
                  clientReturns =
                    [\<lparr>cr_clientId = 1, investmentShare = 1, cr_sharePercentage = 100,
                      returnAmount = 4999, closingBalance = 5000\<rparr>],
                  mr_platformReturns = [], calculatedAt = newDate 2024 1 1,
                  clientReturnIds = [40], platformReturnIds = [],
                  createdAt = newDate 2024 1 1, updatedAt = newDate 2024 1 1\<rparr>]\<rparr>"

theorem month_snapshot_noninterference_witness:
  "(case calculateMonthlyReturns ledgerP (newDate 2024 2 1) (newDate 2024 1 15) of
      Inl e \<Rightarrow> False
    | Inr e1 \<Rightarrow>
        (case calculateMonthlyReturns ledgerQ (newDate 2024 2 2) (newDate 2024 1 15) of
           Inl e \<Rightarrow> False
         | Inr e2 \<Rightarrow>
             monthlyReturns e1 (getTime (startOfMonth (newDate 2024 1 15))) \<noteq> None
           \<and> map_option clientReturns (monthlyReturns e1 (getTime (startOfMonth (newDate 2024 1 15))))
             = map_option clientReturns
                 (monthlyReturns e2 (getTime (startOfMonth (newDate 2024 1 15))))))
   \<and> (case forMonths (\<lambda>n. newDate 2024 2 1) 1 [newDate 2024 0 1, newDate 2024 1 1] ledgerQ of
        (dA, rA) \<Rightarrow>
          (case forMonths (\<lambda>n. newDate 2024 2 2) 5 [newDate 2024 1 1, newDate 2024 0 1] ledgerQ of
             (dB, rB) \<Rightarrow>
                 rA = None \<and> rB = None
               \<and> map_option snapshotFields (monthlyReturns dA (getTime (newDate 2024 0 1)))
                 = map_option snapshotFields (monthlyReturns dB (getTime (newDate 2024 0 1)))))"
proof -
  have "(case calculateMonthlyReturns ledgerQ (newDate 2024 2 2) (newDate 2024 1 15) of
      Inl e \<Rightarrow> False | Inr d' \<Rightarrow> True)"
    by code_simp
  then obtain e2 where
    r2: "calculateMonthlyReturns ledgerQ (newDate 2024 2 2) (newDate 2024 1 15) = Inr e2"
    by (auto split: sum.splits)
  obtain e1 where
    r1: "calculateMonthlyReturns ledgerP (newDate 2024 2 1) (newDate 2024 1 15) = Inr e1"
    using ledgerP_february_returns by (auto split: sum.splits)
  have same: "investments ledgerP = investments ledgerQ
      \<and> platformInvestments ledgerP = platformInvestments ledgerQ"
    by (simp add: ledgerQ_def)
  note t1 = month_snapshot_noninterference[where ?d1.0 = ledgerP and ?d2.0 = ledgerQ
      and ?c1.0 = "newDate 2024 2 1" and ?c2.0 = "newDate 2024 2 2" and m = "newDate 2024 1 15"
      and ?e1.0 = e1 and ?e2.0 = e2, THEN conjunct1, THEN mp, OF same, THEN conjunct1, THEN mp]
  from t1 r1 r2 obtain s1 s2 where
    "monthlyReturns e1 (getTime (startOfMonth (newDate 2024 1 15))) = Some s1"
    "monthlyReturns e2 (getTime (startOfMonth (newDate 2024 1 15))) = Some s2"
    "clientReturns s1 = clientReturns s2"
    by blast
  then have first: "(case calculateMonthlyReturns ledgerP (newDate 2024 2 1) (newDate 2024 1 15) of
      Inl e \<Rightarrow> False
    | Inr e1 \<Rightarrow>
        (case calculateMonthlyReturns ledgerQ (newDate 2024 2 2) (newDate 2024 1 15) of
           Inl e \<Rightarrow> False
         | Inr e2 \<Rightarrow>
             monthlyReturns e1 (getTime (startOfMonth (newDate 2024 1 15))) \<noteq> None
           \<and> map_option clientReturns (monthlyReturns e1 (getTime (startOfMonth (newDate 2024 1 15))))
             = map_option clientReturns
                 (monthlyReturns e2 (getTime (startOfMonth (newDate 2024 1 15))))))"
    by (simp add: r1 r2)
  have "(case forMonths (\<lambda>n. newDate 2024 2 1) 1 [newDate 2024 0 1, newDate 2024 1 1] ledgerQ of
        (dA, rA) \<Rightarrow> rA = None)"
    by code_simp
  then obtain dA where
    fa: "forMonths (\<lambda>n. newDate 2024 2 1) 1 [newDate 2024 0 1, newDate 2024 1 1] ledgerQ = (dA, None)"
    by (auto split: prod.splits)
  have perm: "set [newDate 2024 0 1, newDate 2024 1 1] = set [newDate 2024 1 1, newDate 2024 0 1]"
    by (simp add: insert_commute)
  note t2 = month_snapshot_noninterference[where ms = "[newDate 2024 0 1, newDate 2024 1 1]"
      and ms' = "[newDate 2024 1 1, newDate 2024 0 1]" and clock = "\<lambda>n. newDate 2024 2 1"
      and n = 1 and d = ledgerQ and dA = dA and clock' = "\<lambda>n. newDate 2024 2 2" and n' = 5,
      THEN conjunct2, THEN mp]
  from t2 perm fa obtain dB where
    fb: "forMonths (\<lambda>n. newDate 2024 2 2) 5 [newDate 2024 1 1, newDate 2024 0 1] ledgerQ = (dB, None)"
    and eq: "\<forall>k. map_option snapshotFields (monthlyReturns dA k)
        = map_option snapshotFields (monthlyReturns dB k)"
    by blast
  have second: "(case forMonths (\<lambda>n. newDate 2024 2 1) 1 [newDate 2024 0 1, newDate 2024 1 1] ledgerQ of
        (dA, rA) \<Rightarrow>
          (case forMonths (\<lambda>n. newDate 2024 2 2) 5 [newDate 2024 1 1, newDate 2024 0 1] ledgerQ of
             (dB, rB) \<Rightarrow>
                 rA = None \<and> rB = None
               \<and> map_option snapshotFields (monthlyReturns dA (getTime (newDate 2024 0 1)))
                 = map_option snapshotFields (monthlyReturns dB (getTime (newDate 2024 0 1)))))"
    unfolding fa fb using eq by simp
  show ?thesis using first second by (rule conjI)
qed


end
